theory Spec2Isabelle
  imports Main "HOL-Library.Word"
begin

unbundle bit_operations_syntax

section \<open>Bytes, buffers and the constants of the scheme\<close>

text \<open>
  The codec of \<^verbatim>\<open>crypto.c\<close> works on raw buffers. A buffer is a list of bytes, a
  pointer into a buffer is the buffer with an offset, and a C \<^verbatim>\<open>int\<close> size is an
  \<^typ>\<open>int\<close>. The model describes the C program on well-formed states (buffers as long as
  the code assumes them to be); a read or write past the end of a buffer is undefined in C
  and the theorems below exclude it by their length hypotheses.
\<close>

type_synonym byte = "8 word"
type_synonym bytes = "byte list"
type_synonym Pgno = "32 word"

datatype error = AssertionFailed | OutOfBounds

definition memcpy :: "bytes \<Rightarrow> bytes \<Rightarrow> nat \<Rightarrow> bytes" where
  \<comment> \<open>\<^verbatim>\<open>memcpy(dst, src, n)\<close>: the first \<open>n\<close> bytes of \<open>dst\<close> become those of \<open>src\<close>.\<close>
  "memcpy dst src n = take n src @ drop n dst"

definition store_at :: "bytes \<Rightarrow> nat \<Rightarrow> bytes \<Rightarrow> bytes" where
  \<comment> \<open>Writing the bytes \<open>out\<close> through the pointer \<^verbatim>\<open>&dst[off]\<close>.\<close>
  "store_at dst off out = take off dst @ out @ drop (off + length out) dst"

definition HDR_SZ :: nat where
  \<comment> \<open>\<^verbatim>\<open>crypto.h\<close> is not among the sources; the comment of line 133 gives the value.\<close>
  "HDR_SZ = 24"

text \<open>
  The macros \<^verbatim>\<open>CIPHER\<close> and \<^verbatim>\<open>DIGEST\<close> (\<^verbatim>\<open>crypto.h\<close>), the string
  \<^verbatim>\<open>SQLITE_FILE_HEADER\<close> (\<^verbatim>\<open>btreeInt.h\<close>) and the byte order of the host are not
  in \<^verbatim>\<open>crypto.c\<close>: they are the fields of a parameter record.
\<close>

record codec_suite =
  cipher_block_size :: nat
  cipher_key_length :: int
  block_encrypt :: "bytes \<Rightarrow> bytes \<Rightarrow> bytes"
  block_decrypt :: "bytes \<Rightarrow> bytes \<Rightarrow> bytes"
  digest :: "bytes \<Rightarrow> bytes"
  file_header :: bytes
  big_endian :: bool

section \<open>The per-page digest (lines 39-72)\<close>

definition pgno_bytes :: "codec_suite \<Rightarrow> Pgno \<Rightarrow> bytes" where
  \<comment> \<open>The object representation of a \<^verbatim>\<open>Pgno\<close> (a 32-bit unsigned): \<^verbatim>\<open>&pgno, sizeof(pgno)\<close>.\<close>
  "pgno_bytes s pgno =
     (let le = [ucast pgno, ucast (drop_bit 8 pgno), ucast (drop_bit 16 pgno),
                ucast (drop_bit 24 pgno)]
      in if big_endian s then rev le else le)"

text \<open>
  An \<^verbatim>\<open>EVP_MD_CTX\<close> is modelled by the message absorbed so far: an update appends, the
  final step applies the digest.
\<close>

definition EVP_DigestUpdate :: "bytes \<Rightarrow> bytes \<Rightarrow> nat \<Rightarrow> bytes" where
  "EVP_DigestUpdate mdctx d cnt = mdctx @ take cnt d"

definition EVP_DigestFinal_ex :: "codec_suite \<Rightarrow> bytes \<Rightarrow> bytes" where
  "EVP_DigestFinal_ex s mdctx = digest s mdctx"

definition codec_page_hash :: "codec_suite \<Rightarrow> Pgno \<Rightarrow> bytes \<Rightarrow> nat \<Rightarrow> bytes" where
  \<comment> \<open>The result is \<^verbatim>\<open>out\<close>; \<^verbatim>\<open>*outLen\<close> is its length.\<close>
  "codec_page_hash s pgno inp inLen =
     (let mdctx = [];
          mdctx = EVP_DigestUpdate mdctx inp inLen;
          mdctx = EVP_DigestUpdate mdctx (pgno_bytes s pgno) 4
      in EVP_DigestFinal_ex s mdctx)"

definition codec_passphrase_hash :: "codec_suite \<Rightarrow> bytes \<Rightarrow> int \<Rightarrow> bytes" where
  "codec_passphrase_hash s inp inLen =
     (let mdctx = [];
          mdctx = EVP_DigestUpdate mdctx inp (nat inLen)
      in EVP_DigestFinal_ex s mdctx)"

section \<open>The page cipher (lines 82-103)\<close>

definition xor_block :: "bytes \<Rightarrow> bytes \<Rightarrow> bytes" where
  "xor_block a b = map2 (XOR) a b"

text \<open>
  Modelled from the spec: the cipher that \<^verbatim>\<open>EVP_CipherInit\<close>, \<^verbatim>\<open>EVP_CipherUpdate\<close> and
  \<^verbatim>\<open>EVP_CipherFinal\<close> run is selected by the macro \<^verbatim>\<open>CIPHER\<close> and implemented by the
  crypto library, neither of which is in \<^verbatim>\<open>crypto.c\<close>. Section 4.3 of the spec says
  it is a block cipher in CBC mode with padding disabled. The block primitive itself
  stays a parameter (\<^const>\<open>block_encrypt\<close>, \<^const>\<open>block_decrypt\<close>); the chaining is
  written out.
\<close>

function cbc_encrypt :: "codec_suite \<Rightarrow> bytes \<Rightarrow> bytes \<Rightarrow> bytes \<Rightarrow> bytes" where
  "cbc_encrypt s k prev d =
     (if cipher_block_size s = 0 \<or> length d < cipher_block_size s then []
      else block_encrypt s k (xor_block (take (cipher_block_size s) d) prev)
           @ cbc_encrypt s k (block_encrypt s k (xor_block (take (cipher_block_size s) d) prev))
               (drop (cipher_block_size s) d))"
  by pat_completeness auto
termination
  by (relation "measure (\<lambda>(s, k, prev, d). length d)") auto

function cbc_decrypt :: "codec_suite \<Rightarrow> bytes \<Rightarrow> bytes \<Rightarrow> bytes \<Rightarrow> bytes" where
  "cbc_decrypt s k prev d =
     (if cipher_block_size s = 0 \<or> length d < cipher_block_size s then []
      else xor_block (block_decrypt s k (take (cipher_block_size s) d)) prev
           @ cbc_decrypt s k (take (cipher_block_size s) d) (drop (cipher_block_size s) d))"
  by pat_completeness auto
termination
  by (relation "measure (\<lambda>(s, k, prev, d). length d)") auto

declare cbc_encrypt.simps [simp del] cbc_decrypt.simps [simp del]

definition EVP_CipherUpdate ::
  "codec_suite \<Rightarrow> bool \<Rightarrow> bytes \<Rightarrow> bytes \<Rightarrow> bytes \<Rightarrow> int \<Rightarrow> bytes \<times> int \<times> nat" where
  \<comment> \<open>The bytes written to \<^verbatim>\<open>out\<close>, their count \<^verbatim>\<open>*outl\<close> (the whole blocks of the
      input) and the count of input bytes left over in the cipher context.\<close>
  "EVP_CipherUpdate s mode k iv inp inl =
     (if inl \<le> 0 \<or> cipher_block_size s = 0 then ([], 0, 0)
      else let bs = cipher_block_size s;
               whole = (nat inl div bs) * bs;
               blocks = take whole inp
           in ((if mode then cbc_encrypt else cbc_decrypt) s k (take bs iv) blocks,
               int whole, nat inl mod bs))"

definition EVP_CipherFinal :: "nat \<Rightarrow> int option" where
  \<comment> \<open>With padding disabled the final step writes nothing; it fails when input bytes are
      left over (the data was not a multiple of the block length).\<close>
  "EVP_CipherFinal left = (if left = 0 then Some 0 else None)"

record Btree =
  pageSize :: int

text \<open>
  The context of lines 30-37. Its field \<^verbatim>\<open>pKey\<close> is never read or written and is left
  out; \<^verbatim>\<open>pBt\<close> points to the B-tree, of which the codec asks the page size only.
\<close>

record codec_ctx =
  key_sz :: int
  pBt :: Btree
  key :: bytes
  rand :: bytes
  buffer :: bytes

definition codec_cipher ::
  "codec_suite \<Rightarrow> codec_ctx \<Rightarrow> Pgno \<Rightarrow> bool \<Rightarrow> int \<Rightarrow> bytes \<Rightarrow> error + bytes" where
  \<comment> \<open>The result is what the call writes through \<^verbatim>\<open>out\<close>. When
      \<^verbatim>\<open>EVP_CipherFinal\<close> fails, \<^verbatim>\<open>csz\<close> differs from \<^verbatim>\<open>size\<close> (here \<open>sz\<close>) and the assertion
      of line 102 stops the program.\<close>
  "codec_cipher s c pgno mode sz inp =
     (let iv = codec_page_hash s pgno (rand c) 16 in
      case EVP_CipherUpdate s mode (key c) iv inp sz of
        (out, tmp_csz, left) \<Rightarrow>
          (case EVP_CipherFinal left of
             None \<Rightarrow> Inl AssertionFailed
           | Some tmp_csz2 \<Rightarrow>
               if sz = tmp_csz + tmp_csz2 then Inr out else Inl AssertionFailed))"

section \<open>The page transform (lines 112-158)\<close>

text \<open>
  The caller's page \<^verbatim>\<open>pData\<close> and the context's scratch buffer are two separate
  objects: the scratch buffer is allocated by the attach routine and handed out only as
  the return value of an encrypting call. The returned pointer is one of the two.
  \<^verbatim>\<open>sqlite3BtreeGetPageSize(ctx->pBt)\<close> reads the field \<^const>\<open>pageSize\<close>.
\<close>

datatype buf_ptr = PData | CtxBuffer

record codec_mem =
  ctx :: codec_ctx
  pData :: bytes

definition codec_emode :: "int \<Rightarrow> bool option" where
  \<comment> \<open>The \<^verbatim>\<open>switch\<close> of lines 117-130; \<open>None\<close> is the \<^verbatim>\<open>default\<close> branch.\<close>
  "codec_emode mode =
     (if mode = 0 \<or> mode = 2 \<or> mode = 3 then Some False
      else if mode = 6 \<or> mode = 7 then Some True
      else None)"

definition codec_transform ::
  "codec_suite \<Rightarrow> codec_mem \<Rightarrow> Pgno \<Rightarrow> bool \<Rightarrow> error + buf_ptr \<times> codec_mem" where
  \<comment> \<open>Lines 132-157, once \<^verbatim>\<open>emode\<close> is known.\<close>
  "codec_transform s m pgno emode =
     (let c = ctx m;
          pg_sz = pageSize (pBt c);
          ciphered =
            (if pgno = 1 then
               let c1 = c\<lparr>buffer := memcpy (buffer c) (pData m) HDR_SZ\<rparr>;
                   c2 = (if emode then c1\<lparr>buffer := memcpy (buffer c1) (rand c1) 16\<rparr>
                         else c1\<lparr>rand := memcpy (rand c1) (pData m) 16,
                                buffer := memcpy (buffer c1) (file_header s) 16\<rparr>)
               in (case codec_cipher s c2 pgno emode (pg_sz - int HDR_SZ)
                          (drop HDR_SZ (pData m)) of
                     Inl e \<Rightarrow> Inl e
                   | Inr out \<Rightarrow> Inr (c2\<lparr>buffer := store_at (buffer c2) HDR_SZ out\<rparr>))
             else
               (case codec_cipher s c pgno emode pg_sz (pData m) of
                  Inl e \<Rightarrow> Inl e
                | Inr out \<Rightarrow> Inr (c\<lparr>buffer := store_at (buffer c) 0 out\<rparr>)))
      in case ciphered of
           Inl e \<Rightarrow> Inl e
         | Inr c' \<Rightarrow>
             if emode then Inr (CtxBuffer, m\<lparr>ctx := c'\<rparr>)
             else Inr (PData, \<lparr>ctx = c', pData = memcpy (pData m) (buffer c') (nat pg_sz)\<rparr>))"

definition sqlite3Codec ::
  "codec_suite \<Rightarrow> codec_mem \<Rightarrow> Pgno \<Rightarrow> int \<Rightarrow> error + buf_ptr \<times> codec_mem" where
  "sqlite3Codec s m pgno mode =
     (case codec_emode mode of
        None \<Rightarrow> Inr (PData, m)
      | Some emode \<Rightarrow> codec_transform s m pgno emode)"

section \<open>Attaching a codec (lines 160-227)\<close>

text \<open>
  A database handle holds its attached databases; each has a B-tree (or none) and, in
  its pager, the slot that \<^verbatim>\<open>sqlite3pager_set_codec\<close> fills: the slot is the field
  \<open>pCodecArg\<close> here, and setting the codec overwrites it. The pages of the file on
  disk are the field \<open>dbFile\<close>. A NULL pointer is \<open>None\<close>.
\<close>

record Db =
  dbBt :: "Btree option"
  pCodecArg :: "codec_ctx option"
  dbFile :: "(Pgno \<times> bytes) list"

record sqlite3 =
  nDb :: int
  aDb :: "Db list"

definition c_div :: "int \<Rightarrow> int \<Rightarrow> int" where
  \<comment> \<open>The division of C, which truncates towards zero.\<close>
  "c_div a b = sgn a * sgn b * (\<bar>a\<bar> div \<bar>b\<bar>)"

definition UpperToLower :: "byte \<Rightarrow> byte" where
  \<comment> \<open>Folding an ASCII capital to its small letter; part of the model of
      \<^verbatim>\<open>sqlite3StrNICmp\<close> below.\<close>
  "UpperToLower ch = (if 0x41 \<le> ch \<and> ch \<le> 0x5A then ch + 0x20 else ch)"

definition sqlite3StrNICmp :: "bytes \<Rightarrow> bytes \<Rightarrow> nat \<Rightarrow> int" where
  \<comment> \<open>Modelled from the spec: \<^verbatim>\<open>sqlite3StrNICmp\<close> (the engine's \<^verbatim>\<open>util.c\<close>) is not under
      \<^verbatim>\<open>src/\<close>; the spec's literal key is a string "prefixed \<^verbatim>\<open>x'\<close>". The comparison
      ignores case; only whether the result is 0 is used.\<close>
  "sqlite3StrNICmp a b n =
     (if map UpperToLower (take n a) = map UpperToLower (take n b) then 0 else 1)"

definition hexToInt :: "byte \<Rightarrow> byte" where
  \<comment> \<open>The value of one hex digit; part of the model of \<^verbatim>\<open>sqlite3HexToBlob\<close> below.\<close>
  "hexToInt h = (h + 9 * (1 AND drop_bit 6 h)) AND 0xf"

fun hex_pairs :: "bytes \<Rightarrow> bytes" where
  "hex_pairs (a # b # r) = (push_bit 4 (hexToInt a) OR hexToInt b) # hex_pairs r"
| "hex_pairs r = []"

definition sqlite3HexToBlob :: "bytes \<Rightarrow> int \<Rightarrow> bytes" where
  \<comment> \<open>Modelled from the spec: \<^verbatim>\<open>sqlite3HexToBlob\<close> (the engine's \<^verbatim>\<open>util.c\<close>) is not under
      \<^verbatim>\<open>src/\<close>; the spec says "hex-decode the payload between the markers". Two digits
      give one byte; the last digit of an odd count has no partner and gives none.\<close>
  "sqlite3HexToBlob z n = hex_pairs (take (2 * (nat n div 2)) z)"

definition blob_prefix :: bytes where
  \<comment> \<open>The string \<^verbatim>\<open>"x'"\<close>.\<close>
  "blob_prefix = [0x78, 0x27]"

definition sqlite3CodecAttach ::
  "codec_suite \<Rightarrow> sqlite3 \<Rightarrow> int \<Rightarrow> bytes option \<Rightarrow> int \<Rightarrow> bytes \<Rightarrow> error + sqlite3" where
  \<comment> \<open>\<open>rnd\<close> is what \<^verbatim>\<open>RAND_pseudo_bytes\<close> delivers to this call. The scratch buffer comes
      from \<^verbatim>\<open>sqlite3_malloc\<close>: its first content, unspecified in C, is zeroes here.
      Allocation succeeds (the source does not test it). An index outside \<^verbatim>\<open>aDb\<close>,
      undefined in C, is the error \<open>OutOfBounds\<close>; \<^verbatim>\<open>sqlite3_key\<close> never passes one. The
      C function returns no value.\<close>
  "sqlite3CodecAttach s db n zKey nKey rnd =
     (if n < 0 \<or> int (length (aDb db)) \<le> n then Inl OutOfBounds
      else
        let pDb = aDb db ! nat n in
        case (zKey, dbBt pDb) of
          (Some z, Some bt) \<Rightarrow>
            if nKey \<noteq> 0 then
              let c = \<lparr>key_sz = cipher_key_length s, pBt = bt, key = [],
                       rand = take 16 rnd,
                       buffer = replicate (nat (pageSize bt)) 0\<rparr>
              in case (if sqlite3StrNICmp z blob_prefix 2 = 0 then
                         (if c_div (nKey - 3) 2 = key_sz c
                          then Inr (sqlite3HexToBlob (drop 2 z) (nKey - 3))
                          else Inl AssertionFailed)
                       else
                         (let k = codec_passphrase_hash s z nKey in
                          if int (length k) = key_sz c then Inr k
                          else Inl AssertionFailed)) of
                   Inl e \<Rightarrow> Inl e
                 | Inr k \<Rightarrow>
                     Inr (db\<lparr>aDb := (aDb db)[nat n := pDb\<lparr>pCodecArg := Some (c\<lparr>key := k\<rparr>)\<rparr>]\<rparr>)
            else Inr db
        | _ \<Rightarrow> Inr db)"

function key_loop ::
  "codec_suite \<Rightarrow> sqlite3 \<Rightarrow> bytes option \<Rightarrow> int \<Rightarrow> (int \<Rightarrow> bytes) \<Rightarrow> int \<Rightarrow> int
     \<Rightarrow> error + sqlite3" where
  \<comment> \<open>The loop of lines 217-219 from index \<open>i\<close>; \<open>hi\<close> is \<^verbatim>\<open>db->nDb\<close>, which no attach
      changes.\<close>
  "key_loop s db pKey nKey rnds hi i =
     (if i < hi then
        (case sqlite3CodecAttach s db i pKey nKey (rnds i) of
           Inl e \<Rightarrow> Inl e
         | Inr db' \<Rightarrow> key_loop s db' pKey nKey rnds hi (i + 1))
      else Inr db)"
  by pat_completeness auto
termination
  by (relation "measure (\<lambda>(s, db, pKey, nKey, rnds, hi, i). nat (hi - i))") auto

declare key_loop.simps [simp del]

definition sqlite3_key ::
  "codec_suite \<Rightarrow> sqlite3 option \<Rightarrow> bytes option \<Rightarrow> int \<Rightarrow> (int \<Rightarrow> bytes)
     \<Rightarrow> error + sqlite3 option" where
  \<comment> \<open>\<open>rnds i\<close> is what \<^verbatim>\<open>RAND_pseudo_bytes\<close> delivers to the attach of database \<open>i\<close>.\<close>
  "sqlite3_key s db pKey nKey rnds =
     (case db of
        None \<Rightarrow> Inr None
      | Some d \<Rightarrow>
          (case key_loop s d pKey nKey rnds (nDb d) 0 of
             Inl e \<Rightarrow> Inl e
           | Inr d' \<Rightarrow> Inr (Some d')))"

datatype stdout_line = Rekey_not_implemented

definition sqlite3_rekey ::
  "codec_suite \<Rightarrow> stdout_line list \<Rightarrow> sqlite3 option \<Rightarrow> bytes option \<Rightarrow> int \<Rightarrow> (int \<Rightarrow> bytes)
     \<Rightarrow> stdout_line list \<times> (error + sqlite3 option)" where
  \<comment> \<open>The \<^verbatim>\<open>printf\<close> of line 225 appends its one line to the standard output.\<close>
  "sqlite3_rekey s out db pKey nKey rnds =
     (out @ [Rekey_not_implemented], sqlite3_key s db pKey nKey rnds)"

section \<open>Well-formed parameters and states\<close>

text \<open>
  What the C code takes for granted. The block primitive maps a block to a block, and the
  digest is at least one block long (the cipher reads its IV from the digest buffer).
  The page and the scratch buffer are one page long, a page holds at least the header,
  the salt is 16 bytes and the file header string is 16 bytes.
\<close>

definition suite_ok :: "codec_suite \<Rightarrow> bool" where
  "suite_ok s \<longleftrightarrow>
     0 < cipher_block_size s \<and>
     (\<forall>k b. length b = cipher_block_size s \<longrightarrow>
        length (block_encrypt s k b) = cipher_block_size s \<and>
        length (block_decrypt s k b) = cipher_block_size s) \<and>
     (\<forall>m. cipher_block_size s \<le> length (digest s m))"

definition block_inverse :: "codec_suite \<Rightarrow> bool" where
  "block_inverse s \<longleftrightarrow>
     (\<forall>k b. length b = cipher_block_size s \<longrightarrow>
        block_decrypt s k (block_encrypt s k b) = b)"

definition page_ok :: "codec_suite \<Rightarrow> codec_mem \<Rightarrow> bool" where
  "page_ok s m \<longleftrightarrow>
     int HDR_SZ \<le> pageSize (pBt (ctx m)) \<and>
     int (length (pData m)) = pageSize (pBt (ctx m)) \<and>
     int (length (buffer (ctx m))) = pageSize (pBt (ctx m)) \<and>
     length (rand (ctx m)) = 16 \<and>
     length (file_header s) = 16"

section \<open>Reading a result\<close>

definition le_value :: "bytes \<Rightarrow> nat" where
  \<comment> \<open>The number that a string of bytes denotes, least significant byte first.\<close>
  "le_value bs = foldr (\<lambda>b acc. unat b + 256 * acc) bs 0"

definition returned_ptr :: "error + buf_ptr \<times> codec_mem \<Rightarrow> buf_ptr option" where
  "returned_ptr r = (case r of Inl e \<Rightarrow> None | Inr (p, m) \<Rightarrow> Some p)"

definition returned_mem :: "error + buf_ptr \<times> codec_mem \<Rightarrow> codec_mem option" where
  "returned_mem r = (case r of Inl e \<Rightarrow> None | Inr (p, m) \<Rightarrow> Some m)"

definition attached_ctx :: "error + sqlite3 \<Rightarrow> nat \<Rightarrow> codec_ctx option" where
  \<comment> \<open>The context in the codec slot of database \<open>i\<close> after an attach that returned.\<close>
  "attached_ctx r i = (case r of Inl e \<Rightarrow> None | Inr d \<Rightarrow> pCodecArg (aDb d ! i))"

section \<open>A small instance for evaluation\<close>

text \<open>
  The concrete inputs of the examples below: a suite with 8-byte blocks, 16-byte keys and
  a 16-byte digest (its block primitive adds a byte derived from the key to every byte of
  the block, its digest sums the message from sixteen starting values), the file header
  string of the storage engine, and pages of 512 bytes.
\<close>

definition demo_key_byte :: "bytes \<Rightarrow> byte" where
  "demo_key_byte k = fold (+) k 0"

definition sqlite_header :: bytes where
  \<comment> \<open>\<^verbatim>\<open>"SQLite format 3"\<close> and its terminating NUL.\<close>
  "sqlite_header = [0x53, 0x51, 0x4C, 0x69, 0x74, 0x65, 0x20, 0x66,
                    0x6F, 0x72, 0x6D, 0x61, 0x74, 0x20, 0x33, 0x00]"

definition demo_suite :: codec_suite where
  "demo_suite =
     \<lparr>cipher_block_size = 8, cipher_key_length = 16,
      block_encrypt = (\<lambda>k b. map (\<lambda>x. x + demo_key_byte k) b),
      block_decrypt = (\<lambda>k b. map (\<lambda>x. x - demo_key_byte k) b),
      digest = (\<lambda>m. map (\<lambda>i. fold (+) m i) [0, 1, 2, 3, 4, 5, 6, 7, 8, 9, 10, 11, 12, 13, 14, 15]),
      file_header = sqlite_header,
      big_endian = False\<rparr>"

definition demo_salt :: bytes where
  "demo_salt = [1, 2, 3, 4, 5, 6, 7, 8, 9, 10, 11, 12, 13, 14, 15, 16]"

definition demo_ctx :: codec_ctx where
  "demo_ctx = \<lparr>key_sz = 16, pBt = \<lparr>pageSize = 512\<rparr>, key = replicate 16 0x11,
               rand = replicate 16 0xAA, buffer = replicate 512 0\<rparr>"

definition demo_disk_page :: bytes where
  \<comment> \<open>A first page as read from a file: salt, the eight header bytes, the encrypted rest.\<close>
  "demo_disk_page = demo_salt @ [0x02, 0x00, 0x01, 0x01, 0x00, 0x40, 0x20, 0x20] @ replicate 488 0x5C"

definition demo_plain_page :: bytes where
  \<comment> \<open>A first page as the pager holds it, about to be written.\<close>
  "demo_plain_page = sqlite_header @ [0x02, 0x00, 0x01, 0x01, 0x00, 0x40, 0x20, 0x20] @ replicate 488 0"

definition demo_plain_page' :: bytes where
  \<comment> \<open>The same with 8 reserved bytes per page recorded at offset 20.\<close>
  "demo_plain_page' = sqlite_header @ [0x02, 0x00, 0x01, 0x01, 0x08, 0x40, 0x20, 0x20] @ replicate 488 0"

definition demo_db :: sqlite3 where
  \<comment> \<open>One database, with \<^const>\<open>demo_ctx\<close> already attached.\<close>
  "demo_db = \<lparr>nDb = 1,
              aDb = [\<lparr>dbBt = Some \<lparr>pageSize = 512\<rparr>, pCodecArg = Some demo_ctx,
                      dbFile = [(1, demo_disk_page)]\<rparr>]\<rparr>"

definition demo_fresh_db :: sqlite3 where
  \<comment> \<open>One database with nothing attached.\<close>
  "demo_fresh_db = \<lparr>nDb = 1,
              aDb = [\<lparr>dbBt = Some \<lparr>pageSize = 512\<rparr>, pCodecArg = None,
                      dbFile = [(1, demo_disk_page)]\<rparr>]\<rparr>"

definition demo_two_db :: sqlite3 where
  \<comment> \<open>Two databases: the first with \<^const>\<open>demo_ctx\<close> attached, the second with nothing.\<close>
  "demo_two_db = \<lparr>nDb = 2,
     aDb = [\<lparr>dbBt = Some \<lparr>pageSize = 512\<rparr>, pCodecArg = Some demo_ctx,
             dbFile = [(1, demo_disk_page)]\<rparr>,
            \<lparr>dbBt = Some \<lparr>pageSize = 512\<rparr>, pCodecArg = None,
             dbFile = [(1, demo_plain_page)]\<rparr>]\<rparr>"

definition demo_rnds :: "int \<Rightarrow> bytes" where
  \<comment> \<open>The random bytes delivered to the attach of each database.\<close>
  "demo_rnds i = (if i = 0 then demo_salt else replicate 16 0xBB)"

definition demo_passphrase :: bytes where
  \<comment> \<open>The string \<^verbatim>\<open>"correct horse"\<close>.\<close>
  "demo_passphrase = [0x63, 0x6F, 0x72, 0x72, 0x65, 0x63, 0x74, 0x20, 0x68, 0x6F, 0x72, 0x73, 0x65]"

definition demo_blob_key :: "nat \<Rightarrow> bytes" where
  \<comment> \<open>The literal \<^verbatim>\<open>x'aa...a'\<close> with \<open>n\<close> hex digits.\<close>
  "demo_blob_key n = blob_prefix @ replicate n 0x61 @ [0x27]"

section \<open>The chaining mode\<close>

lemma xor_block_length: "length a = length b \<Longrightarrow> length (xor_block a b) = length a"
  by (simp add: xor_block_def)

lemma xor_block_cancel: "length a = length b \<Longrightarrow> xor_block (xor_block a b) b = a"
  unfolding xor_block_def
  by (induction a b rule: list_induct2) (simp_all add: xor.assoc)

lemma cbc_encrypt_length:
  "suite_ok s \<Longrightarrow> length prev = cipher_block_size s \<Longrightarrow> cipher_block_size s dvd length d \<Longrightarrow>
   length (cbc_encrypt s k prev d) = length d"
proof (induction s k prev d rule: cbc_encrypt.induct)
  case (1 s k prev d)
  let ?bs = "cipher_block_size s"
  have bs: "0 < ?bs" using "1.prems"(1) by (simp add: suite_ok_def)
  show ?case
  proof (cases "length d < ?bs")
    case True
    with "1.prems"(3) bs have "length d = 0"
      by (auto dest: dvd_imp_le)
    then show ?thesis using bs by (subst cbc_encrypt.simps) simp
  next
    case False
    let ?c = "block_encrypt s k (xor_block (take ?bs d) prev)"
    have lx: "length (xor_block (take ?bs d) prev) = ?bs"
      using False "1.prems"(2) by (simp add: xor_block_def)
    have lc: "length ?c = ?bs"
      using "1.prems"(1) lx by (simp add: suite_ok_def)
    have dv: "?bs dvd length (drop ?bs d)"
      using "1.prems"(3) False by simp
    have "length (cbc_encrypt s k ?c (drop ?bs d)) = length (drop ?bs d)"
      using "1.IH" bs False "1.prems"(1) lc dv by simp
    then show ?thesis
      using False bs lc by (subst cbc_encrypt.simps) simp
  qed
qed

lemma cbc_decrypt_length:
  "suite_ok s \<Longrightarrow> length prev = cipher_block_size s \<Longrightarrow> cipher_block_size s dvd length d \<Longrightarrow>
   length (cbc_decrypt s k prev d) = length d"
proof (induction s k prev d rule: cbc_decrypt.induct)
  case (1 s k prev d)
  let ?bs = "cipher_block_size s"
  have bs: "0 < ?bs" using "1.prems"(1) by (simp add: suite_ok_def)
  show ?case
  proof (cases "length d < ?bs")
    case True
    with "1.prems"(3) bs have "length d = 0"
      by (auto dest: dvd_imp_le)
    then show ?thesis using bs by (subst cbc_decrypt.simps) simp
  next
    case False
    have lt: "length (take ?bs d) = ?bs" using False by simp
    have lp: "length (xor_block (block_decrypt s k (take ?bs d)) prev) = ?bs"
      using "1.prems"(1,2) lt by (simp add: suite_ok_def xor_block_def)
    have dv: "?bs dvd length (drop ?bs d)"
      using "1.prems"(3) False by simp
    have "length (cbc_decrypt s k (take ?bs d) (drop ?bs d)) = length (drop ?bs d)"
      using "1.IH" bs False "1.prems"(1) lt dv by simp
    then show ?thesis
      using False bs lp by (subst cbc_decrypt.simps) simp
  qed
qed

lemma cbc_round_trip:
  "suite_ok s \<Longrightarrow> block_inverse s \<Longrightarrow> length prev = cipher_block_size s \<Longrightarrow>
   cipher_block_size s dvd length d \<Longrightarrow>
   cbc_decrypt s k prev (cbc_encrypt s k prev d) = d"
proof (induction s k prev d rule: cbc_encrypt.induct)
  case (1 s k prev d)
  let ?bs = "cipher_block_size s"
  have bs: "0 < ?bs" using "1.prems"(1) by (simp add: suite_ok_def)
  show ?case
  proof (cases "length d < ?bs")
    case True
    with "1.prems"(4) bs have d0: "d = []"
      by (auto dest: dvd_imp_le)
    have "cbc_encrypt s k prev d = []" using d0 bs by (subst cbc_encrypt.simps) simp
    then show ?thesis using d0 bs by (subst cbc_decrypt.simps) simp
  next
    case False
    let ?x = "xor_block (take ?bs d) prev"
    let ?c = "block_encrypt s k ?x"
    let ?rest = "cbc_encrypt s k ?c (drop ?bs d)"
    have lx: "length ?x = ?bs"
      using False "1.prems"(3) by (simp add: xor_block_def)
    have lc: "length ?c = ?bs"
      using "1.prems"(1) lx by (simp add: suite_ok_def)
    have dv: "?bs dvd length (drop ?bs d)"
      using "1.prems"(4) False by simp
    have enc: "cbc_encrypt s k prev d = ?c @ ?rest"
      using False bs by (subst cbc_encrypt.simps) simp
    have ih: "cbc_decrypt s k ?c ?rest = drop ?bs d"
      using "1.IH" bs False "1.prems"(1,2) lc dv by simp
    have inv: "block_decrypt s k ?c = ?x"
      using "1.prems"(2) lx by (simp add: block_inverse_def)
    have unx: "xor_block ?x prev = take ?bs d"
      using False "1.prems"(3) by (intro xor_block_cancel) simp
    have "cbc_decrypt s k prev (?c @ ?rest) =
            xor_block (block_decrypt s k ?c) prev @ cbc_decrypt s k ?c ?rest"
      using lc bs by (subst cbc_decrypt.simps) simp
    then show ?thesis
      using enc ih inv unx by simp
  qed
qed


section \<open>The cipher call and the page transform\<close>

lemma page_iv_length:
  "suite_ok s \<Longrightarrow> length (take (cipher_block_size s) (codec_page_hash s pgno r n)) = cipher_block_size s"
  by (simp add: suite_ok_def codec_page_hash_def EVP_DigestFinal_ex_def Let_def)

lemma codec_cipher_ok:
  assumes "suite_ok s" and "0 \<le> sz" and "cipher_block_size s dvd nat sz"
  shows "codec_cipher s c pgno mode sz inp =
           Inr ((if mode then cbc_encrypt else cbc_decrypt) s (key c)
                  (take (cipher_block_size s) (codec_page_hash s pgno (rand c) 16))
                  (take (nat sz) inp))"
proof -
  have bs: "0 < cipher_block_size s" using assms(1) by (simp add: suite_ok_def)
  have whole: "nat sz div cipher_block_size s * cipher_block_size s = nat sz"
    using assms(3) by simp
  have left: "nat sz mod cipher_block_size s = 0"
    using assms(3) by simp
  have whole_int: "int (nat sz div cipher_block_size s) * int (cipher_block_size s) = sz"
    using whole assms(2) by (metis nat_0_le of_nat_mult)
  show ?thesis
  proof (cases "sz = 0")
    case True
    have "cbc_encrypt s (key c) (take (cipher_block_size s) (codec_page_hash s pgno (rand c) 16)) [] = []"
      using bs by (subst cbc_encrypt.simps) simp
    moreover have "cbc_decrypt s (key c) (take (cipher_block_size s) (codec_page_hash s pgno (rand c) 16)) [] = []"
      using bs by (subst cbc_decrypt.simps) simp
    ultimately show ?thesis using True
      by (simp add: codec_cipher_def EVP_CipherUpdate_def EVP_CipherFinal_def)
  next
    case False
    then have "0 < sz" using assms(2) by simp
    then show ?thesis using bs whole left whole_int assms(2)
      by (simp add: codec_cipher_def EVP_CipherUpdate_def EVP_CipherFinal_def Let_def)
  qed
qed

lemma codec_cipher_stops:
  assumes "0 < cipher_block_size s" and "\<not> cipher_block_size s dvd nat sz"
  shows "codec_cipher s c pgno mode sz inp = Inl AssertionFailed"
proof -
  have "0 < sz" using assms(2) by (cases "sz \<le> 0") simp_all
  moreover have "nat sz mod cipher_block_size s \<noteq> 0"
    using assms(2) by (simp add: dvd_eq_mod_eq_0)
  ultimately show ?thesis using assms(1)
    by (simp add: codec_cipher_def EVP_CipherUpdate_def EVP_CipherFinal_def Let_def)
qed


lemma transform_other_page:
  assumes "suite_ok s" and "page_ok s m" and "pgno \<noteq> 1"
    and "cipher_block_size s dvd nat (pageSize (pBt (ctx m)))"
  shows "codec_transform s m pgno True =
           Inr (CtxBuffer, m\<lparr>ctx := (ctx m)\<lparr>buffer :=
             cbc_encrypt s (key (ctx m))
               (take (cipher_block_size s) (codec_page_hash s pgno (rand (ctx m)) 16))
               (pData m)\<rparr>\<rparr>)"
    and "codec_transform s m pgno False =
           Inr (PData, \<lparr>ctx = (ctx m)\<lparr>buffer :=
             cbc_decrypt s (key (ctx m))
               (take (cipher_block_size s) (codec_page_hash s pgno (rand (ctx m)) 16))
               (pData m)\<rparr>,
             pData = cbc_decrypt s (key (ctx m))
               (take (cipher_block_size s) (codec_page_hash s pgno (rand (ctx m)) 16))
               (pData m)\<rparr>)"
proof -
  let ?pg = "pageSize (pBt (ctx m))"
  let ?iv = "take (cipher_block_size s) (codec_page_hash s pgno (rand (ctx m)) 16)"
  let ?e = "cbc_encrypt s (key (ctx m)) ?iv (pData m)"
  let ?d = "cbc_decrypt s (key (ctx m)) ?iv (pData m)"
  have pg: "0 \<le> ?pg" "length (pData m) = nat ?pg" "length (buffer (ctx m)) = nat ?pg"
    using assms(2) by (auto simp: page_ok_def)
  have tk: "take (nat ?pg) (pData m) = pData m" using pg(2) by simp
  have ce: "codec_cipher s (ctx m) pgno True ?pg (pData m) = Inr ?e"
    using codec_cipher_ok [OF assms(1) pg(1) assms(4), where mode = True] tk by simp
  have cd: "codec_cipher s (ctx m) pgno False ?pg (pData m) = Inr ?d"
    using codec_cipher_ok [OF assms(1) pg(1) assms(4), where mode = False] tk by simp
  have ivl: "length ?iv = cipher_block_size s"
    by (rule page_iv_length [OF assms(1)])
  have dv: "cipher_block_size s dvd length (pData m)"
    using assms(4) pg(2) by simp
  have le: "length ?e = length (buffer (ctx m))"
    using cbc_encrypt_length [OF assms(1) ivl dv] pg(2,3) by simp
  have ld: "length ?d = length (buffer (ctx m))"
    using cbc_decrypt_length [OF assms(1) ivl dv] pg(2,3) by simp
  have ste: "store_at (buffer (ctx m)) 0 ?e = ?e"
    unfolding store_at_def using le by simp
  have std: "store_at (buffer (ctx m)) 0 ?d = ?d"
    unfolding store_at_def using ld by simp
  have mc: "memcpy (pData m) ?d (nat ?pg) = ?d"
    unfolding memcpy_def using ld pg(2,3) by simp
  show "codec_transform s m pgno True = Inr (CtxBuffer, m\<lparr>ctx := (ctx m)\<lparr>buffer := ?e\<rparr>\<rparr>)"
    unfolding codec_transform_def Let_def
    by (simp only: assms(3) if_False if_True ce ste sum.case)
  show "codec_transform s m pgno False = Inr (PData, \<lparr>ctx = (ctx m)\<lparr>buffer := ?d\<rparr>, pData = ?d\<rparr>)"
    unfolding codec_transform_def Let_def
    by (simp only: assms(3) if_False if_True cd std sum.case) (simp add: mc)
qed

lemma header_copy:
  assumes "24 \<le> length p" and "length h = 16"
  shows "memcpy (memcpy b p 24) h 16 = h @ take 8 (drop 16 p) @ drop 24 b"
  using assms by (simp add: memcpy_def drop_take)

lemma store_after_header:
  assumes "length h = 16" and "length q = 8" and "length out = length rest"
  shows "store_at (h @ q @ rest) 24 out = h @ q @ out"
  using assms by (simp add: store_at_def)

lemma memcpy_whole: "length x = n \<Longrightarrow> length p = n \<Longrightarrow> memcpy p x n = x"
  by (simp add: memcpy_def)

lemma transform_page1:
  assumes "suite_ok s" and "page_ok s m"
    and "cipher_block_size s dvd nat (pageSize (pBt (ctx m))) - 24"
  shows "codec_transform s m 1 True =
           Inr (CtxBuffer, m\<lparr>ctx := (ctx m)\<lparr>buffer :=
             rand (ctx m) @ take 8 (drop 16 (pData m)) @
             cbc_encrypt s (key (ctx m))
               (take (cipher_block_size s) (codec_page_hash s 1 (rand (ctx m)) 16))
               (drop 24 (pData m))\<rparr>\<rparr>)"
    and "codec_transform s m 1 False =
           Inr (PData,
             \<lparr>ctx = (ctx m)\<lparr>rand := take 16 (pData m), buffer :=
                file_header s @ take 8 (drop 16 (pData m)) @
                cbc_decrypt s (key (ctx m))
                  (take (cipher_block_size s) (codec_page_hash s 1 (take 16 (pData m)) 16))
                  (drop 24 (pData m))\<rparr>,
              pData =
                file_header s @ take 8 (drop 16 (pData m)) @
                cbc_decrypt s (key (ctx m))
                  (take (cipher_block_size s) (codec_page_hash s 1 (take 16 (pData m)) 16))
                  (drop 24 (pData m))\<rparr>)"
proof -
  let ?c = "ctx m"
  let ?p = "pData m"
  let ?pg = "pageSize (pBt ?c)"
  let ?q = "take 8 (drop 16 ?p)"
  let ?ive = "take (cipher_block_size s) (codec_page_hash s 1 (rand ?c) 16)"
  let ?ivd = "take (cipher_block_size s) (codec_page_hash s 1 (take 16 ?p) 16)"
  let ?e = "cbc_encrypt s (key ?c) ?ive (drop 24 ?p)"
  let ?d = "cbc_decrypt s (key ?c) ?ivd (drop 24 ?p)"
  have pg: "24 \<le> ?pg" "length ?p = nat ?pg" "length (buffer ?c) = nat ?pg"
    "length (rand ?c) = 16" "length (file_header s) = 16"
    using assms(2) by (auto simp: page_ok_def HDR_SZ_def)
  have p24: "24 \<le> length ?p" using pg(1,2) by simp
  have lq: "length ?q = 8" using p24 by simp
  have sz: "0 \<le> ?pg - 24" using pg(1) by simp
  have nsz: "nat (?pg - 24) = nat ?pg - 24" by simp
  have dv: "cipher_block_size s dvd nat (?pg - 24)" using assms(3) nsz by simp
  have tk: "take (nat (?pg - 24)) (drop 24 ?p) = drop 24 ?p" using pg(2) by simp
  have dvl: "cipher_block_size s dvd length (drop 24 ?p)" using assms(3) pg(2) by simp
  have le: "length ?e = length (drop 24 (buffer ?c))"
    using cbc_encrypt_length [OF assms(1) page_iv_length [OF assms(1)] dvl] pg(2,3) by simp
  have ld: "length ?d = length (drop 24 (buffer ?c))"
    using cbc_decrypt_length [OF assms(1) page_iv_length [OF assms(1)] dvl] pg(2,3) by simp
  have he: "memcpy (memcpy (buffer ?c) ?p 24) (rand ?c) 16 = rand ?c @ ?q @ drop 24 (buffer ?c)"
    by (rule header_copy [OF p24 pg(4)])
  have hd: "memcpy (memcpy (buffer ?c) ?p 24) (file_header s) 16
              = file_header s @ ?q @ drop 24 (buffer ?c)"
    by (rule header_copy [OF p24 pg(5)])
  have salt: "memcpy (rand ?c) ?p 16 = take 16 ?p"
    using pg(4) by (simp add: memcpy_def)
  have ste: "store_at (rand ?c @ ?q @ drop 24 (buffer ?c)) 24 ?e = rand ?c @ ?q @ ?e"
    by (rule store_after_header [OF pg(4) lq le])
  have std: "store_at (file_header s @ ?q @ drop 24 (buffer ?c)) 24 ?d = file_header s @ ?q @ ?d"
    by (rule store_after_header [OF pg(5) lq ld])
  have ce: "codec_cipher s (?c\<lparr>buffer := rand ?c @ ?q @ drop 24 (buffer ?c)\<rparr>) 1 True
              (?pg - 24) (drop 24 ?p) = Inr ?e"
    using codec_cipher_ok [OF assms(1) sz dv, where mode = True] tk by simp
  have cd: "codec_cipher s (?c\<lparr>rand := take 16 ?p,
                buffer := file_header s @ ?q @ drop 24 (buffer ?c)\<rparr>) 1 False
              (?pg - 24) (drop 24 ?p) = Inr ?d"
    using codec_cipher_ok [OF assms(1) sz dv, where mode = False] tk by simp
  have lB: "length (file_header s @ ?q @ ?d) = nat ?pg"
    using pg ld lq by simp
  have mc: "memcpy ?p (file_header s @ ?q @ ?d) (nat ?pg) = file_header s @ ?q @ ?d"
    by (rule memcpy_whole [OF lB pg(2)])
  show "codec_transform s m 1 True =
          Inr (CtxBuffer, m\<lparr>ctx := ?c\<lparr>buffer := rand ?c @ ?q @ ?e\<rparr>\<rparr>)"
    unfolding codec_transform_def Let_def HDR_SZ_def
    using he ce ste by simp
  show "codec_transform s m 1 False =
          Inr (PData, \<lparr>ctx = ?c\<lparr>rand := take 16 ?p, buffer := file_header s @ ?q @ ?d\<rparr>,
                       pData = file_header s @ ?q @ ?d\<rparr>)"
    unfolding codec_transform_def Let_def HDR_SZ_def
    using hd salt cd std mc by simp
qed


section \<open>The bytes of a page number\<close>

lemma byte_digits:
  fixes x :: nat
  assumes "x < 2 ^ 32"
  shows "x mod 256 + 256 * (x div 256 mod 256 + 256 * (x div 65536 mod 256 + 256 * (x div 16777216 mod 256))) = x"
proof -
  have a: "x div 16777216 mod 256 = x div 16777216" using assms by (simp add: less_mult_imp_div_less)
  have "x div 16777216 = x div 65536 div 256" "x div 65536 = x div 256 div 256"
    by (simp_all add: div_mult2_eq [symmetric])
  then have b: "x div 65536 = x div 65536 mod 256 + 256 * (x div 16777216)"
    and c: "x div 256 = x div 256 mod 256 + 256 * (x div 65536)"
    by presburger+
  have d: "x = x mod 256 + 256 * (x div 256)" by simp
  show ?thesis using a b c d by presburger
qed

lemma unat_byte_of_pgno:
  "unat (ucast (drop_bit n (p :: Pgno)) :: byte) = unat p div 2 ^ n mod 256"
  unfolding unsigned_ucast_eq unat_drop_bit_eq
  by (simp add: take_bit_eq_mod drop_bit_eq_div)

lemma pgno_bytes_value:
  "le_value (if big_endian s then rev (pgno_bytes s pgno) else pgno_bytes s pgno) = unat pgno"
proof -
  have lt: "unat pgno < 2 ^ 32" using unsigned_less [of pgno, where 'a = nat] by simp
  have u0: "unat (ucast pgno :: byte) = unat pgno mod 256"
    by (simp add: unsigned_ucast_eq take_bit_eq_mod)
  show ?thesis
    using byte_digits [OF lt] u0 unat_byte_of_pgno [of 8 pgno] unat_byte_of_pgno [of 16 pgno]
          unat_byte_of_pgno [of 24 pgno]
    by (simp add: pgno_bytes_def le_value_def Let_def)
qed

lemma pgno_bytes_inj: "pgno_bytes s p = pgno_bytes s q \<Longrightarrow> p = q"
proof -
  assume e: "pgno_bytes s p = pgno_bytes s q"
  have "unat p = le_value (if big_endian s then rev (pgno_bytes s p) else pgno_bytes s p)"
    by (simp only: pgno_bytes_value)
  also have "\<dots> = le_value (if big_endian s then rev (pgno_bytes s q) else pgno_bytes s q)"
    by (simp only: e)
  also have "\<dots> = unat q"
    by (simp only: pgno_bytes_value)
  finally have "unat p = unat q" .
  then show "p = q" by (simp add: word_unat_eq_iff)
qed

lemma pgno_bytes_length: "length (pgno_bytes s pgno) = 4"
  by (simp add: pgno_bytes_def Let_def)

section \<open>The instance is well-formed\<close>

lemma demo_suite_ok: "suite_ok demo_suite"
  by (simp add: suite_ok_def demo_suite_def)

lemma demo_block_inverse: "block_inverse demo_suite"
  by (simp add: block_inverse_def demo_suite_def comp_def)

lemma sqlite3Codec_modes:
  "sqlite3Codec s m pgno 0 = codec_transform s m pgno False"
  "sqlite3Codec s m pgno 2 = codec_transform s m pgno False"
  "sqlite3Codec s m pgno 3 = codec_transform s m pgno False"
  "sqlite3Codec s m pgno 6 = codec_transform s m pgno True"
  "sqlite3Codec s m pgno 7 = codec_transform s m pgno True"
  by (simp_all add: sqlite3Codec_def codec_emode_def)

lemma demo_disk_ok: "page_ok demo_suite \<lparr>ctx = demo_ctx, pData = demo_disk_page\<rparr>"
  by (simp add: page_ok_def demo_suite_def demo_ctx_def demo_disk_page_def demo_salt_def
        sqlite_header_def HDR_SZ_def)

lemma demo_plain_ok: "page_ok demo_suite \<lparr>ctx = demo_ctx, pData = demo_plain_page\<rparr>"
  by (simp add: page_ok_def demo_suite_def demo_ctx_def demo_plain_page_def
        sqlite_header_def HDR_SZ_def)

lemma demo_plain_ok': "page_ok demo_suite \<lparr>ctx = demo_ctx, pData = demo_plain_page'\<rparr>"
  by (simp add: page_ok_def demo_suite_def demo_ctx_def demo_plain_page'_def
        sqlite_header_def HDR_SZ_def)

lemma demo_dvd:
  "cipher_block_size demo_suite dvd nat (pageSize (pBt (ctx \<lparr>ctx = demo_ctx, pData = p\<rparr>))) - 24"
  "cipher_block_size demo_suite dvd nat (pageSize (pBt (ctx \<lparr>ctx = demo_ctx, pData = p\<rparr>)))"
  by (simp_all add: demo_suite_def demo_ctx_def)

lemma transform_salt:
  "codec_transform s m pgno emode = Inr (p, m') \<Longrightarrow>
   rand (ctx m') = (if pgno = 1 \<and> \<not> emode then memcpy (rand (ctx m)) (pData m) 16
                    else rand (ctx m))"
  unfolding codec_transform_def Let_def
  by (auto split: if_splits sum.splits)

section \<open>Attaching: the credential and the files\<close>

lemma c_div_nonneg: "0 \<le> a \<Longrightarrow> c_div a 2 = a div 2"
  by (cases "a = 0") (simp_all add: c_div_def)

lemma hex_pairs_length: "length (hex_pairs xs) = length xs div 2"
  by (induction xs rule: hex_pairs.induct) simp_all

lemma blob_literal_detected: "sqlite3StrNICmp (blob_prefix @ r) blob_prefix 2 = 0"
  by (simp add: sqlite3StrNICmp_def blob_prefix_def)

lemma hex_blob_length:
  "length (sqlite3HexToBlob (hex @ [q]) (int (length hex))) = length hex div 2"
proof -
  have "2 * (length hex div 2) \<le> length hex" by simp
  then show ?thesis
    by (simp add: sqlite3HexToBlob_def hex_pairs_length min_def)
qed

lemma attach_credential:
  assumes "0 \<le> n" and "n < int (length (aDb db))" and "dbBt (aDb db ! nat n) = Some bt"
    and "nKey \<noteq> 0"
  shows "sqlite3CodecAttach s db n (Some z) nKey rnd =
           (case (if sqlite3StrNICmp z blob_prefix 2 = 0 then
                    (if c_div (nKey - 3) 2 = cipher_key_length s
                     then Inr (sqlite3HexToBlob (drop 2 z) (nKey - 3))
                     else Inl AssertionFailed)
                  else
                    (if int (length (codec_passphrase_hash s z nKey)) = cipher_key_length s
                     then Inr (codec_passphrase_hash s z nKey)
                     else Inl AssertionFailed)) of
              Inl e \<Rightarrow> Inl e
            | Inr k \<Rightarrow>
                Inr (db\<lparr>aDb := (aDb db)[nat n := (aDb db ! nat n)\<lparr>pCodecArg := Some
                       \<lparr>key_sz = cipher_key_length s, pBt = bt, key = k,
                        rand = take 16 rnd,
                        buffer = replicate (nat (pageSize bt)) 0\<rparr>\<rparr>]\<rparr>))"
  using assms by (simp add: sqlite3CodecAttach_def Let_def)

lemma attach_touches_one:
  assumes "sqlite3CodecAttach s db n zKey nKey rnd = Inr d"
  shows "length (aDb d) = length (aDb db) \<and> nDb d = nDb db \<and>
         (\<forall>j < length (aDb db).
            dbBt (aDb d ! j) = dbBt (aDb db ! j) \<and>
            dbFile (aDb d ! j) = dbFile (aDb db ! j) \<and>
            (j \<noteq> nat n \<longrightarrow> aDb d ! j = aDb db ! j))"
proof (cases "n < 0 \<or> int (length (aDb db)) \<le> n")
  case True
  then show ?thesis using assms by (simp add: sqlite3CodecAttach_def)
next
  case False
  then have i: "nat n < length (aDb db)" by linarith
  have upd: "d = db \<or> (\<exists>c. d = db\<lparr>aDb := (aDb db)[nat n := (aDb db ! nat n)\<lparr>pCodecArg := c\<rparr>]\<rparr>)"
    using assms False
    by (auto simp: sqlite3CodecAttach_def Let_def split: option.splits sum.splits if_splits)
  then show ?thesis
  proof
    assume "d = db" then show ?thesis by simp
  next
    assume "\<exists>c. d = db\<lparr>aDb := (aDb db)[nat n := (aDb db ! nat n)\<lparr>pCodecArg := c\<rparr>]\<rparr>"
    then obtain c where d: "d = db\<lparr>aDb := (aDb db)[nat n := (aDb db ! nat n)\<lparr>pCodecArg := c\<rparr>]\<rparr>"
      by blast
    show ?thesis unfolding d using i by (auto simp: nth_list_update)
  qed
qed

lemma attach_local:
  assumes "0 \<le> n" and "n < int (length (aDb db1))" and "n < int (length (aDb db2))"
    and "aDb db1 ! nat n = aDb db2 ! nat n"
  shows "map_sum id (\<lambda>d. pCodecArg (aDb d ! nat n)) (sqlite3CodecAttach s db1 n zKey nKey rnd)
       = map_sum id (\<lambda>d. pCodecArg (aDb d ! nat n)) (sqlite3CodecAttach s db2 n zKey nKey rnd)"
proof -
  have i: "nat n < length (aDb db1)" "nat n < length (aDb db2)" using assms(1-3) by linarith+
  show ?thesis
    using assms i
    by (auto simp: sqlite3CodecAttach_def Let_def split: option.splits sum.splits)
qed

lemma attach_local_ctx:
  assumes "0 \<le> n" and "n < int (length (aDb db1))" and "n < int (length (aDb db2))"
    and "aDb db1 ! nat n = aDb db2 ! nat n"
  shows "attached_ctx (sqlite3CodecAttach s db1 n zKey nKey rnd) (nat n)
       = attached_ctx (sqlite3CodecAttach s db2 n zKey nKey rnd) (nat n)"
  using attach_local [OF assms, of s zKey nKey rnd]
  by (auto simp: attached_ctx_def split: sum.splits)

lemma attach_local_returns:
  assumes "0 \<le> n" and "n < int (length (aDb db1))" and "n < int (length (aDb db2))"
    and "aDb db1 ! nat n = aDb db2 ! nat n"
    and "sqlite3CodecAttach s db1 n zKey nKey rnd = Inr d1"
  shows "\<exists>d2. sqlite3CodecAttach s db2 n zKey nKey rnd = Inr d2"
  using attach_local [OF assms(1-4), of s zKey nKey rnd] assms(5)
  by (cases "sqlite3CodecAttach s db2 n zKey nKey rnd") auto

lemma key_loop_attaches:
  "key_loop s db pKey nKey rnds hi i = Inr d' \<Longrightarrow> 0 \<le> i \<Longrightarrow> hi \<le> int (length (aDb db)) \<Longrightarrow>
   length (aDb d') = length (aDb db) \<and> nDb d' = nDb db \<and>
   (\<forall>j < length (aDb db).
      dbBt (aDb d' ! j) = dbBt (aDb db ! j) \<and>
      dbFile (aDb d' ! j) = dbFile (aDb db ! j) \<and>
      pCodecArg (aDb d' ! j) =
        (if i \<le> int j \<and> int j < hi
         then attached_ctx (sqlite3CodecAttach s db (int j) pKey nKey (rnds (int j))) j
         else pCodecArg (aDb db ! j)))"
proof (induction s db pKey nKey rnds hi i arbitrary: d' rule: key_loop.induct)
  case (1 s db pKey nKey rnds hi i)
  show ?case
  proof (cases "i < hi")
    case False
    then have "d' = db" using "1.prems"(1) by (subst (asm) key_loop.simps) simp
    moreover have "\<not> (i \<le> int j \<and> int j < hi)" for j using False by linarith
    ultimately show ?thesis by auto
  next
    case True
    from "1.prems"(1) True obtain db' where
      a: "sqlite3CodecAttach s db i pKey nKey (rnds i) = Inr db'" and
      r: "key_loop s db' pKey nKey rnds hi (i + 1) = Inr d'"
      by (subst (asm) key_loop.simps) (auto split: sum.splits)
    note one = attach_touches_one [OF a]
    have len: "length (aDb db') = length (aDb db)" using one by simp
    have hi': "hi \<le> int (length (aDb db'))" using "1.prems"(3) len by simp
    have i1: "0 \<le> i + 1" using "1.prems"(2) by simp
    note ih = "1.IH" [OF True a r i1 hi']
    have slot: "pCodecArg (aDb d' ! j) =
        (if i \<le> int j \<and> int j < hi
         then attached_ctx (sqlite3CodecAttach s db (int j) pKey nKey (rnds (int j))) j
         else pCodecArg (aDb db ! j))" if j: "j < length (aDb db)" for j
    proof -
      have ihj: "pCodecArg (aDb d' ! j) =
        (if i + 1 \<le> int j \<and> int j < hi
         then attached_ctx (sqlite3CodecAttach s db' (int j) pKey nKey (rnds (int j))) j
         else pCodecArg (aDb db' ! j))"
        using ih j len by simp
      consider "int j = i" | "i + 1 \<le> int j" "int j < hi" | "int j < i" | "hi \<le> int j" "int j \<noteq> i"
        by linarith
      then show ?thesis
      proof cases
        case 1
        then have "nat i = j" by simp
        then show ?thesis using ihj 1 True a by (simp add: attached_ctx_def)
      next
        case 2
        then have ne: "j \<noteq> nat i" using "1.prems"(2) by linarith
        have same: "aDb db' ! nat (int j) = aDb db ! nat (int j)" using one j ne by simp
        have "attached_ctx (sqlite3CodecAttach s db' (int j) pKey nKey (rnds (int j))) (nat (int j))
            = attached_ctx (sqlite3CodecAttach s db (int j) pKey nKey (rnds (int j))) (nat (int j))"
          by (rule attach_local_ctx [OF _ _ _ same]) (use j len in simp_all)
        then show ?thesis using ihj 2 by simp
      next
        case 3
        then have ne: "j \<noteq> nat i" using "1.prems"(2) by linarith
        then have "aDb db' ! j = aDb db ! j" using one j by simp
        then show ?thesis using ihj 3 by simp
      next
        case 4
        then have ne: "j \<noteq> nat i" using "1.prems"(2) by linarith
        then have "aDb db' ! j = aDb db ! j" using one j by simp
        then show ?thesis using ihj 4 by simp
      qed
    qed
    have rest: "dbBt (aDb d' ! j) = dbBt (aDb db ! j) \<and> dbFile (aDb d' ! j) = dbFile (aDb db ! j)"
      if j: "j < length (aDb db)" for j
      using ih one j len by simp
    show ?thesis using ih one slot rest by simp
  qed
qed

lemma key_loop_returns:
  "0 \<le> i \<Longrightarrow> hi \<le> int (length (aDb db)) \<Longrightarrow>
   (\<forall>j. i \<le> j \<and> j < hi \<longrightarrow> (\<exists>dj. sqlite3CodecAttach s db j pKey nKey (rnds j) = Inr dj)) \<Longrightarrow>
   \<exists>d'. key_loop s db pKey nKey rnds hi i = Inr d'"
proof (induction s db pKey nKey rnds hi i rule: key_loop.induct)
  case (1 s db pKey nKey rnds hi i)
  show ?case
  proof (cases "i < hi")
    case False
    then show ?thesis by (subst key_loop.simps) simp
  next
    case True
    then obtain db' where a: "sqlite3CodecAttach s db i pKey nKey (rnds i) = Inr db'"
      using "1.prems"(3) by force
    note one = attach_touches_one [OF a]
    have len: "length (aDb db') = length (aDb db)" using one by simp
    have next_ok: "\<exists>dj. sqlite3CodecAttach s db' j pKey nKey (rnds j) = Inr dj"
      if j: "i + 1 \<le> j \<and> j < hi" for j
    proof -
      obtain dj where dj: "sqlite3CodecAttach s db j pKey nKey (rnds j) = Inr dj"
        using "1.prems"(3) j by force
      have j0: "0 \<le> j" and jl: "j < int (length (aDb db))" and ne: "nat j \<noteq> nat i"
        using j "1.prems"(1,2) by linarith+
      have jn: "nat j < length (aDb db)" using j0 jl by linarith
      have same: "aDb db ! nat j = aDb db' ! nat j" using one jn ne by simp
      show ?thesis
        by (rule attach_local_returns [OF j0 jl _ same dj]) (use jl len in simp)
    qed
    have "\<exists>d'. key_loop s db' pKey nKey rnds hi (i + 1) = Inr d'"
      using "1.IH" [OF True a] "1.prems"(1,2) len next_ok by simp
    then show ?thesis using True a by (subst key_loop.simps) simp
  qed
qed

section \<open>The claims\<close>

text \<open>
  Claim C10. For a mode other than 0, 2, 3, 6 and 7 the transform returns the caller's
  pointer and changes nothing: the context, the scratch buffer and the page are as before,
  and no cipher call is made (the call returns even where a cipher call would stop on its
  assertion). Modes 0, 2 and 3 run the transform with \<^verbatim>\<open>emode = 0\<close> (decrypt), modes
  6 and 7 with \<^verbatim>\<open>emode = 1\<close> (encrypt).
\<close>

theorem codec_mode_switch:
  "(mode \<noteq> 0 \<and> mode \<noteq> 2 \<and> mode \<noteq> 3 \<and> mode \<noteq> 6 \<and> mode \<noteq> 7 \<longrightarrow>
      sqlite3Codec s m pgno mode = Inr (PData, m)) \<and>
   (mode = 0 \<or> mode = 2 \<or> mode = 3 \<longrightarrow>
      sqlite3Codec s m pgno mode = codec_transform s m pgno False) \<and>
   (mode = 6 \<or> mode = 7 \<longrightarrow>
      sqlite3Codec s m pgno mode = codec_transform s m pgno True)"
  by (auto simp: sqlite3Codec_def codec_emode_def)

theorem codec_mode_switch_witness:
  "sqlite3Codec demo_suite \<lparr>ctx = demo_ctx, pData = demo_disk_page\<rparr> 2 5
     = Inr (PData, \<lparr>ctx = demo_ctx, pData = demo_disk_page\<rparr>) \<and>
   sqlite3Codec demo_suite \<lparr>ctx = demo_ctx, pData = demo_disk_page\<rparr> 2 3
     = codec_transform demo_suite \<lparr>ctx = demo_ctx, pData = demo_disk_page\<rparr> 2 False \<and>
   sqlite3Codec demo_suite \<lparr>ctx = demo_ctx, pData = demo_disk_page\<rparr> 2 7
     = codec_transform demo_suite \<lparr>ctx = demo_ctx, pData = demo_disk_page\<rparr> 2 True"
  using codec_mode_switch [of 5 demo_suite "\<lparr>ctx = demo_ctx, pData = demo_disk_page\<rparr>" 2]
        codec_mode_switch [of 3 demo_suite "\<lparr>ctx = demo_ctx, pData = demo_disk_page\<rparr>" 2]
        codec_mode_switch [of 7 demo_suite "\<lparr>ctx = demo_ctx, pData = demo_disk_page\<rparr>" 2]
  by simp


text \<open>
  Claim C1, as amended. A decrypting call (mode 0, 2 or 3) on page 1 returns the caller's
  pointer. It sets the salt of the context to bytes 0-15 of the page read from disk. The
  scratch buffer, and after the copy back the caller's page, hold: in bytes 0-15 the file
  header string of the storage engine (line 143 overwrites the salt that line 134 copied),
  in bytes 16-23 the bytes 16-23 of the page from disk, unchanged, and from byte 24 on the
  decryption of bytes 24..page size of the page from disk under the key of the context,
  with the IV taken from the digest of the new salt and the page number 1. The claim as
  stated has the whole 24-byte header in the scratch buffer verbatim; bytes 0-15 are not.
  The size given to the cipher, the page size less 24, is a multiple of the block length:
  otherwise the call stops on the assertion of line 102.
\<close>

theorem codec_page1_decrypt:
  assumes "suite_ok s" and "page_ok s m"
    and "cipher_block_size s dvd nat (pageSize (pBt (ctx m))) - 24"
    and "mode = 0 \<or> mode = 2 \<or> mode = 3"
  shows "sqlite3Codec s m 1 mode =
           Inr (PData,
             \<lparr>ctx = (ctx m)\<lparr>rand := take 16 (pData m), buffer :=
                file_header s @ take 8 (drop 16 (pData m)) @
                cbc_decrypt s (key (ctx m))
                  (take (cipher_block_size s) (codec_page_hash s 1 (take 16 (pData m)) 16))
                  (drop 24 (pData m))\<rparr>,
              pData =
                file_header s @ take 8 (drop 16 (pData m)) @
                cbc_decrypt s (key (ctx m))
                  (take (cipher_block_size s) (codec_page_hash s 1 (take 16 (pData m)) 16))
                  (drop 24 (pData m))\<rparr>)"
  using assms(4) transform_page1(2) [OF assms(1-3)]
  by (auto simp: sqlite3Codec_modes)

theorem codec_page1_decrypt_witness:
  "sqlite3Codec demo_suite \<lparr>ctx = demo_ctx, pData = demo_disk_page\<rparr> 1 0 =
     Inr (PData,
       \<lparr>ctx = demo_ctx\<lparr>rand := demo_salt, buffer :=
          sqlite_header @ [0x02, 0x00, 0x01, 0x01, 0x00, 0x40, 0x20, 0x20] @
          cbc_decrypt demo_suite (replicate 16 0x11)
            (take 8 (codec_page_hash demo_suite 1 demo_salt 16)) (replicate 488 0x5C)\<rparr>,
        pData =
          sqlite_header @ [0x02, 0x00, 0x01, 0x01, 0x00, 0x40, 0x20, 0x20] @
          cbc_decrypt demo_suite (replicate 16 0x11)
            (take 8 (codec_page_hash demo_suite 1 demo_salt 16)) (replicate 488 0x5C)\<rparr>)"
proof -
  have salt: "take 16 demo_disk_page = demo_salt"
    by (simp add: demo_disk_page_def demo_salt_def)
  have hdr: "take 8 (drop 16 demo_disk_page) = [0x02, 0x00, 0x01, 0x01, 0x00, 0x40, 0x20, 0x20]"
    by (simp add: demo_disk_page_def demo_salt_def)
  have rest: "drop 24 demo_disk_page = replicate 488 0x5C"
    by (simp add: demo_disk_page_def demo_salt_def)
  have par: "file_header demo_suite = sqlite_header" "cipher_block_size demo_suite = 8"
    "key demo_ctx = replicate 16 0x11"
    by (simp_all add: demo_suite_def demo_ctx_def)
  show ?thesis
    using codec_page1_decrypt [OF demo_suite_ok demo_disk_ok demo_dvd(1), of 0]
    by (simp add: salt hdr rest par)
qed

theorem codec_page1_decrypt_counterexample:
  "map_option (\<lambda>m'. take 16 (buffer (ctx m')))
     (returned_mem (sqlite3Codec demo_suite \<lparr>ctx = demo_ctx, pData = demo_disk_page\<rparr> 1 0))
     = Some sqlite_header \<and>
   map_option (\<lambda>m'. take 16 (pData m'))
     (returned_mem (sqlite3Codec demo_suite \<lparr>ctx = demo_ctx, pData = demo_disk_page\<rparr> 1 0))
     = Some sqlite_header \<and>
   take 16 demo_disk_page = demo_salt \<and>
   sqlite_header \<noteq> demo_salt"
proof -
  have fh: "file_header demo_suite = sqlite_header" by (simp add: demo_suite_def)
  have l: "length sqlite_header = 16" by (simp add: sqlite_header_def)
  show ?thesis
    using transform_page1(2) [OF demo_suite_ok demo_disk_ok demo_dvd(1)]
    by (simp add: sqlite3Codec_modes returned_mem_def fh l)
       (simp add: demo_disk_page_def demo_salt_def sqlite_header_def)
qed

text \<open>
  Claim C2, as amended. An encrypting call (mode 6 or 7) on page 1 returns the scratch
  buffer, which holds: in bytes 0-15 the salt of the context, in bytes 16-23 the bytes
  16-23 of the caller's page (line 134 copies them; no constant is written there), and
  from byte 24 on the encryption of bytes 24..page size of the caller's page under the key
  of the context, with the IV taken from the digest of the salt and the page number 1.
  The caller's page is unchanged. Two pages that differ in bytes 16-23 give scratch
  buffers that differ there, so these bytes are not fixed by the codec. The size given to
  the cipher, the page size less 24, is a multiple of the block length: otherwise the call
  stops on the assertion of line 102.
\<close>

theorem codec_page1_encrypt:
  assumes "suite_ok s" and "page_ok s m"
    and "cipher_block_size s dvd nat (pageSize (pBt (ctx m))) - 24"
    and "mode = 6 \<or> mode = 7"
  shows "sqlite3Codec s m 1 mode =
           Inr (CtxBuffer, m\<lparr>ctx := (ctx m)\<lparr>buffer :=
             rand (ctx m) @ take 8 (drop 16 (pData m)) @
             cbc_encrypt s (key (ctx m))
               (take (cipher_block_size s) (codec_page_hash s 1 (rand (ctx m)) 16))
               (drop 24 (pData m))\<rparr>\<rparr>)"
  using assms(4) transform_page1(1) [OF assms(1-3)]
  by (auto simp: sqlite3Codec_modes)

theorem codec_page1_encrypt_witness:
  "sqlite3Codec demo_suite \<lparr>ctx = demo_ctx, pData = demo_plain_page\<rparr> 1 6 =
     Inr (CtxBuffer,
       \<lparr>ctx = demo_ctx\<lparr>buffer :=
          replicate 16 0xAA @ [0x02, 0x00, 0x01, 0x01, 0x00, 0x40, 0x20, 0x20] @
          cbc_encrypt demo_suite (replicate 16 0x11)
            (take 8 (codec_page_hash demo_suite 1 (replicate 16 0xAA) 16)) (replicate 488 0)\<rparr>,
        pData = demo_plain_page\<rparr>)"
proof -
  have hdr: "take 8 (drop 16 demo_plain_page) = [0x02, 0x00, 0x01, 0x01, 0x00, 0x40, 0x20, 0x20]"
    by (simp add: demo_plain_page_def sqlite_header_def)
  have rest: "drop 24 demo_plain_page = replicate 488 0"
    by (simp add: demo_plain_page_def sqlite_header_def)
  have par: "cipher_block_size demo_suite = 8" "key demo_ctx = replicate 16 0x11"
    "rand demo_ctx = replicate 16 0xAA"
    by (simp_all add: demo_suite_def demo_ctx_def)
  show ?thesis
    using codec_page1_encrypt [OF demo_suite_ok demo_plain_ok demo_dvd(1), of 6]
    by (simp add: hdr rest par)
qed

theorem codec_page1_encrypt_counterexample:
  "map_option (\<lambda>m'. take 8 (drop 16 (buffer (ctx m'))))
     (returned_mem (sqlite3Codec demo_suite \<lparr>ctx = demo_ctx, pData = demo_plain_page\<rparr> 1 6))
     = Some [0x02, 0x00, 0x01, 0x01, 0x00, 0x40, 0x20, 0x20] \<and>
   map_option (\<lambda>m'. take 8 (drop 16 (buffer (ctx m'))))
     (returned_mem (sqlite3Codec demo_suite \<lparr>ctx = demo_ctx, pData = demo_plain_page'\<rparr> 1 6))
     = Some [0x02, 0x00, 0x01, 0x01, 0x08, 0x40, 0x20, 0x20] \<and>
   [0x02, 0x00, 0x01, 0x01, 0x00, 0x40, 0x20, 0x20] \<noteq> [0x02, 0x00, 0x01, 0x01, 0x08, 0x40, 0x20, 0x20 :: byte]"
proof -
  have hdr: "take 8 (drop 16 demo_plain_page) = [0x02, 0x00, 0x01, 0x01, 0x00, 0x40, 0x20, 0x20]"
    by (simp add: demo_plain_page_def sqlite_header_def)
  have hdr': "take 8 (drop 16 demo_plain_page') = [0x02, 0x00, 0x01, 0x01, 0x08, 0x40, 0x20, 0x20]"
    by (simp add: demo_plain_page'_def sqlite_header_def)
  have r: "length (rand demo_ctx) = 16" by (simp add: demo_ctx_def)
  show ?thesis
    using transform_page1(1) [OF demo_suite_ok demo_plain_ok demo_dvd(1)]
          transform_page1(1) [OF demo_suite_ok demo_plain_ok' demo_dvd(1)]
    by (simp add: sqlite3Codec_modes returned_mem_def hdr hdr' r)
qed

text \<open>
  Claim C3. With a block primitive whose decryption undoes its encryption, a payload whose
  length is the size passed and a multiple of the block length goes through
  \<^const>\<open>codec_cipher\<close> in encrypt mode without failing its assertion, and the result goes
  through it in decrypt mode, with the same context and page number (so the same key and
  IV), back to the payload. The digest is a parameter, so the IV ranges over every value.
\<close>

theorem codec_cipher_round_trip:
  assumes "suite_ok s" and "block_inverse s"
    and "0 \<le> sz" and "cipher_block_size s dvd nat sz" and "length p = nat sz"
  shows "(case codec_cipher s c pgno True sz p of
            Inl e \<Rightarrow> Inl e
          | Inr ct \<Rightarrow> codec_cipher s c pgno False sz ct) = Inr p"
proof -
  let ?iv = "take (cipher_block_size s) (codec_page_hash s pgno (rand c) 16)"
  let ?ct = "cbc_encrypt s (key c) ?iv p"
  have ivl: "length ?iv = cipher_block_size s" by (rule page_iv_length [OF assms(1)])
  have dv: "cipher_block_size s dvd length p" using assms(4,5) by simp
  have enc: "codec_cipher s c pgno True sz p = Inr ?ct"
    using codec_cipher_ok [OF assms(1,3,4), where mode = True] assms(5) by simp
  have lct: "length ?ct = nat sz"
    using cbc_encrypt_length [OF assms(1) ivl dv] assms(5) by simp
  have dec: "codec_cipher s c pgno False sz ?ct = Inr (cbc_decrypt s (key c) ?iv ?ct)"
    using codec_cipher_ok [OF assms(1,3,4), where mode = False] lct by simp
  have "cbc_decrypt s (key c) ?iv ?ct = p"
    by (rule cbc_round_trip [OF assms(1,2) ivl dv])
  then show ?thesis using enc dec by simp
qed

theorem codec_cipher_round_trip_witness:
  "(case codec_cipher demo_suite demo_ctx 2 True 512 demo_plain_page of
      Inl e \<Rightarrow> Inl e
    | Inr ct \<Rightarrow> codec_cipher demo_suite demo_ctx 2 False 512 ct) = Inr demo_plain_page"
proof -
  have l: "length demo_plain_page = nat 512"
    by (simp add: demo_plain_page_def sqlite_header_def)
  have d: "cipher_block_size demo_suite dvd nat 512" by (simp add: demo_suite_def)
  show ?thesis
    by (rule codec_cipher_round_trip [OF demo_suite_ok demo_block_inverse _ d l]) simp
qed

text \<open>
  Claim C4. The caller's page and the scratch buffer are separate objects. An encrypting
  call returns the pointer to the scratch buffer and leaves the caller's page as it was. A decrypting call returns the caller's pointer; the caller's
  page then equals the scratch buffer, that is the plaintext: for page 1 the file header
  string, the eight header bytes and the decryption of the rest, for another page the
  decryption of the whole page. The size given to the cipher (the page size, less 24 for
  page 1) is a multiple of the block length, so that the cipher call does not stop on its
  assertion.
\<close>

theorem codec_return_convention:
  assumes "suite_ok s" and "page_ok s m"
    and "cipher_block_size s dvd nat (pageSize (pBt (ctx m))) - (if pgno = 1 then 24 else 0)"
  shows "(mode = 6 \<or> mode = 7 \<longrightarrow>
            returned_ptr (sqlite3Codec s m pgno mode) = Some CtxBuffer \<and>
            map_option pData (returned_mem (sqlite3Codec s m pgno mode)) = Some (pData m)) \<and>
         (mode = 0 \<or> mode = 2 \<or> mode = 3 \<longrightarrow>
            returned_ptr (sqlite3Codec s m pgno mode) = Some PData \<and>
            map_option pData (returned_mem (sqlite3Codec s m pgno mode))
              = map_option (\<lambda>m'. buffer (ctx m')) (returned_mem (sqlite3Codec s m pgno mode)) \<and>
            map_option pData (returned_mem (sqlite3Codec s m pgno mode))
              = Some (if pgno = 1
                      then file_header s @ take 8 (drop 16 (pData m)) @
                           cbc_decrypt s (key (ctx m))
                             (take (cipher_block_size s)
                                (codec_page_hash s 1 (take 16 (pData m)) 16))
                             (drop 24 (pData m))
                      else cbc_decrypt s (key (ctx m))
                             (take (cipher_block_size s)
                                (codec_page_hash s pgno (rand (ctx m)) 16))
                             (pData m)))"
proof (cases "pgno = 1")
  case True
  then have d: "cipher_block_size s dvd nat (pageSize (pBt (ctx m))) - 24"
    using assms(3) by simp
  show ?thesis
    using True transform_page1 [OF assms(1,2) d]
    by (auto simp: sqlite3Codec_modes returned_ptr_def returned_mem_def)
next
  case False
  then have d: "cipher_block_size s dvd nat (pageSize (pBt (ctx m)))"
    using assms(3) by simp
  show ?thesis
    using False transform_other_page [OF assms(1,2) False d]
    by (auto simp: sqlite3Codec_modes returned_ptr_def returned_mem_def)
qed

theorem codec_return_convention_witness:
  "returned_ptr (sqlite3Codec demo_suite \<lparr>ctx = demo_ctx, pData = demo_plain_page\<rparr> 2 6)
     = Some CtxBuffer \<and>
   map_option pData (returned_mem (sqlite3Codec demo_suite \<lparr>ctx = demo_ctx, pData = demo_plain_page\<rparr> 2 6))
     = Some demo_plain_page \<and>
   returned_ptr (sqlite3Codec demo_suite \<lparr>ctx = demo_ctx, pData = demo_disk_page\<rparr> 2 0)
     = Some PData \<and>
   map_option pData (returned_mem (sqlite3Codec demo_suite \<lparr>ctx = demo_ctx, pData = demo_disk_page\<rparr> 2 0))
     = Some (cbc_decrypt demo_suite (replicate 16 0x11)
               (take 8 (codec_page_hash demo_suite 2 (replicate 16 0xAA) 16)) demo_disk_page)"
proof -
  have par: "cipher_block_size demo_suite = 8" "key demo_ctx = replicate 16 0x11"
    "rand demo_ctx = replicate 16 0xAA"
    by (simp_all add: demo_suite_def demo_ctx_def)
  have d: "cipher_block_size demo_suite dvd
             nat (pageSize (pBt (ctx \<lparr>ctx = demo_ctx, pData = p\<rparr>))) - (if (2::Pgno) = 1 then 24 else 0)"
    for p
    by (simp add: demo_suite_def demo_ctx_def)
  show ?thesis
    using codec_return_convention [OF demo_suite_ok demo_plain_ok d, of 6]
          codec_return_convention [OF demo_suite_ok demo_disk_ok d, of 0]
    by (auto simp: par)
qed

text \<open>
  Claim C5. The IV of a page is the digest of the 16 bytes of the salt followed by the
  page number as four bytes. The four bytes are the base-256 digits of the page number in
  the byte order of the host, so they determine it: two pairs of salt and page number give
  the same digest input only when they are the same pair. The cipher call takes the first
  block of this digest as its IV and reads nothing else but the key and the input, so the
  same salt and page number give the same IV in every call and every run: there is no
  counter, clock or random input on this path.
\<close>

theorem page_iv_is_digest:
  assumes "suite_ok s" and "0 \<le> sz" and "cipher_block_size s dvd nat sz"
  shows "codec_page_hash s pgno salt 16 = digest s (take 16 salt @ pgno_bytes s pgno) \<and>
         length (pgno_bytes s pgno) = 4 \<and>
         le_value (if big_endian s then rev (pgno_bytes s pgno) else pgno_bytes s pgno)
           = unat pgno \<and>
         (take 16 salt @ pgno_bytes s pgno = take 16 salt' @ pgno_bytes s pgno'
            \<longleftrightarrow> take 16 salt = take 16 salt' \<and> pgno = pgno') \<and>
         codec_cipher s c pgno mode sz inp =
           Inr ((if mode then cbc_encrypt else cbc_decrypt) s (key c)
                  (take (cipher_block_size s) (digest s (take 16 (rand c) @ pgno_bytes s pgno)))
                  (take (nat sz) inp))"
proof -
  have h: "codec_page_hash s p r 16 = digest s (take 16 r @ pgno_bytes s p)" for p r
    by (simp add: codec_page_hash_def EVP_DigestUpdate_def EVP_DigestFinal_ex_def
          pgno_bytes_length Let_def)
  have inj: "take 16 salt @ pgno_bytes s pgno = take 16 salt' @ pgno_bytes s pgno'
               \<longleftrightarrow> take 16 salt = take 16 salt' \<and> pgno = pgno'"
    using pgno_bytes_inj [of s pgno pgno']
    by (auto simp: append_eq_append_conv pgno_bytes_length)
  have c: "codec_cipher s c pgno mode sz inp =
           Inr ((if mode then cbc_encrypt else cbc_decrypt) s (key c)
                  (take (cipher_block_size s) (digest s (take 16 (rand c) @ pgno_bytes s pgno)))
                  (take (nat sz) inp))"
    using codec_cipher_ok [OF assms, of c pgno mode inp] by (simp only: h)
  show ?thesis
    using h [of pgno salt] pgno_bytes_length [of s pgno] pgno_bytes_value [of s pgno] inj c
    by (simp only: simp_thms)
qed

theorem page_iv_is_digest_witness:
  "codec_page_hash demo_suite 258 demo_salt 16 = digest demo_suite (demo_salt @ [2, 1, 0, 0]) \<and>
   digest demo_suite (demo_salt @ [2, 1, 0, 0]) =
     [0x8B, 0x8C, 0x8D, 0x8E, 0x8F, 0x90, 0x91, 0x92, 0x93, 0x94, 0x95, 0x96, 0x97, 0x98, 0x99, 0x9A] \<and>
   le_value [2, 1, 0, 0] = unat (258 :: Pgno) \<and>
   codec_cipher demo_suite demo_ctx 258 True 512 demo_plain_page =
     Inr (cbc_encrypt demo_suite (replicate 16 0x11)
            (take 8 (digest demo_suite (replicate 16 0xAA @ [2, 1, 0, 0]))) demo_plain_page)"
proof -
  have pb: "pgno_bytes demo_suite 258 = [2, 1, 0, 0]" by code_simp
  have be: "big_endian demo_suite = False" by (simp add: demo_suite_def)
  have dg: "digest demo_suite (demo_salt @ [2, 1, 0, 0]) =
     [0x8B, 0x8C, 0x8D, 0x8E, 0x8F, 0x90, 0x91, 0x92, 0x93, 0x94, 0x95, 0x96, 0x97, 0x98, 0x99, 0x9A]"
    by code_simp
  have d: "cipher_block_size demo_suite dvd nat 512" by (simp add: demo_suite_def)
  have par: "cipher_block_size demo_suite = 8" "key demo_ctx = replicate 16 0x11"
    "rand demo_ctx = replicate 16 0xAA" "take 16 demo_salt = demo_salt"
    "take 512 demo_plain_page = demo_plain_page"
    by (simp_all add: demo_suite_def demo_ctx_def demo_salt_def demo_plain_page_def sqlite_header_def)
  show ?thesis
    using page_iv_is_digest [OF demo_suite_ok _ d, of 258 demo_salt demo_salt 258 demo_ctx True
            demo_plain_page]
    by (simp add: pb be dg par)
qed

text \<open>
  Claim C8, as amended. A transform call that returns changes the salt of the context only
  when it is a decrypting call (mode 0, 2 or 3) on page 1, and then sets it to bytes 0-15
  of its input page, every time, not only the first; every other call leaves the salt as
  it was. The salt is therefore not immutable after the first transform of page 1: a
  later decrypting call on page 1 whose input starts with other bytes replaces it.
\<close>

theorem salt_changed_only_by_page1_decrypt:
  assumes "sqlite3Codec s m pgno mode = Inr (p, m')"
  shows "rand (ctx m') =
           (if pgno = 1 \<and> (mode = 0 \<or> mode = 2 \<or> mode = 3)
            then memcpy (rand (ctx m)) (pData m) 16
            else rand (ctx m))"
proof (cases "codec_emode mode")
  case None
  then have "mode \<noteq> 0 \<and> mode \<noteq> 2 \<and> mode \<noteq> 3"
    by (auto simp: codec_emode_def split: if_splits)
  then show ?thesis using assms None by (auto simp: sqlite3Codec_def)
next
  case (Some emode)
  then have e: "emode \<longleftrightarrow> \<not> (mode = 0 \<or> mode = 2 \<or> mode = 3)"
    by (auto simp: codec_emode_def split: if_splits)
  have "codec_transform s m pgno emode = Inr (p, m')"
    using assms Some by (simp add: sqlite3Codec_def)
  from transform_salt [OF this] show ?thesis using e by auto
qed

theorem salt_changed_only_by_page1_decrypt_witness:
  "map_option (\<lambda>m'. rand (ctx m'))
     (returned_mem (sqlite3Codec demo_suite \<lparr>ctx = demo_ctx, pData = demo_plain_page\<rparr> 2 6))
     = Some (replicate 16 0xAA) \<and>
   map_option (\<lambda>m'. rand (ctx m'))
     (returned_mem (sqlite3Codec demo_suite \<lparr>ctx = demo_ctx, pData = demo_disk_page\<rparr> 1 0))
     = Some demo_salt"
proof -
  obtain M1 where e1:
    "sqlite3Codec demo_suite \<lparr>ctx = demo_ctx, pData = demo_plain_page\<rparr> 2 6 = Inr (CtxBuffer, M1)"
    using transform_other_page(1) [OF demo_suite_ok demo_plain_ok _ demo_dvd(2), of 2]
    by (simp add: sqlite3Codec_modes)
  obtain M2 where e2:
    "sqlite3Codec demo_suite \<lparr>ctx = demo_ctx, pData = demo_disk_page\<rparr> 1 0 = Inr (PData, M2)"
    using transform_page1(2) [OF demo_suite_ok demo_disk_ok demo_dvd(1)]
    by (simp add: sqlite3Codec_modes)
  have r: "rand demo_ctx = replicate 16 0xAA" by (simp add: demo_ctx_def)
  have s: "memcpy (replicate 16 0xAA) demo_disk_page 16 = demo_salt"
    by (simp add: memcpy_def demo_disk_page_def demo_salt_def)
  show ?thesis
    using salt_changed_only_by_page1_decrypt [OF e1] salt_changed_only_by_page1_decrypt [OF e2]
    by (simp add: e1 e2 returned_mem_def r s)
qed

theorem salt_immutable_counterexample:
  "map_option (\<lambda>m'. rand (ctx m'))
     (returned_mem (sqlite3Codec demo_suite \<lparr>ctx = demo_ctx, pData = demo_plain_page\<rparr> 1 6))
     = Some (replicate 16 0xAA) \<and>
   map_option (\<lambda>m'. rand (ctx m'))
     (Option.bind
        (returned_mem (sqlite3Codec demo_suite \<lparr>ctx = demo_ctx, pData = demo_plain_page\<rparr> 1 6))
        (\<lambda>m1. returned_mem (sqlite3Codec demo_suite (m1\<lparr>pData := demo_disk_page\<rparr>) 1 0)))
     = Some demo_salt \<and>
   replicate 16 0xAA \<noteq> demo_salt"
proof -
  let ?iv = "take (cipher_block_size demo_suite) (codec_page_hash demo_suite 1 (rand demo_ctx) 16)"
  let ?e = "cbc_encrypt demo_suite (key demo_ctx) ?iv (drop 24 demo_plain_page)"
  let ?b = "rand demo_ctx @ take 8 (drop 16 demo_plain_page) @ ?e"
  let ?m1 = "\<lparr>ctx = demo_ctx\<lparr>buffer := ?b\<rparr>, pData = demo_plain_page\<rparr>"
  have e1: "sqlite3Codec demo_suite \<lparr>ctx = demo_ctx, pData = demo_plain_page\<rparr> 1 6
              = Inr (CtxBuffer, ?m1)"
    using transform_page1(1) [OF demo_suite_ok demo_plain_ok demo_dvd(1)]
    by (simp add: sqlite3Codec_modes)
  have dv: "cipher_block_size demo_suite dvd length (drop 24 demo_plain_page)"
    by (simp add: demo_suite_def demo_plain_page_def sqlite_header_def)
  have le: "length ?e = 488"
    using cbc_encrypt_length [OF demo_suite_ok page_iv_length [OF demo_suite_ok] dv]
    by (simp add: demo_plain_page_def sqlite_header_def)
  have lb: "length ?b = 512"
    using le by (simp add: demo_ctx_def demo_plain_page_def sqlite_header_def)
  have ok2: "page_ok demo_suite (?m1\<lparr>pData := demo_disk_page\<rparr>)"
    using lb
    by (simp add: page_ok_def HDR_SZ_def demo_suite_def demo_ctx_def demo_disk_page_def
          demo_salt_def sqlite_header_def)
  have dv2: "cipher_block_size demo_suite dvd
               nat (pageSize (pBt (ctx (?m1\<lparr>pData := demo_disk_page\<rparr>)))) - 24"
    by (simp add: demo_suite_def demo_ctx_def)
  have e2: "returned_mem (sqlite3Codec demo_suite (?m1\<lparr>pData := demo_disk_page\<rparr>) 1 0)
              \<noteq> None \<and>
            map_option (\<lambda>m'. rand (ctx m'))
              (returned_mem (sqlite3Codec demo_suite (?m1\<lparr>pData := demo_disk_page\<rparr>) 1 0))
              = Some (take 16 demo_disk_page)"
    using transform_page1(2) [OF demo_suite_ok ok2 dv2]
    by (simp add: sqlite3Codec_modes returned_mem_def)
  have s: "take 16 demo_disk_page = demo_salt"
    by (simp add: demo_disk_page_def demo_salt_def)
  have "hd (replicate 16 (0xAA::byte)) \<noteq> hd demo_salt"
    by (simp add: demo_salt_def)
  then have ne: "replicate 16 (0xAA::byte) \<noteq> demo_salt"
    by (rule contrapos_nn) (simp only:)
  have r: "rand demo_ctx = replicate 16 0xAA" by (simp add: demo_ctx_def)
  have first: "returned_mem (sqlite3Codec demo_suite \<lparr>ctx = demo_ctx, pData = demo_plain_page\<rparr> 1 6)
                 = Some ?m1"
    using e1 by (simp add: returned_mem_def)
  show ?thesis
    using e2 ne by (simp only: first Option.bind.simps s) (simp add: r)
qed

text \<open>
  Claim C6, as amended. For a credential \<^verbatim>\<open>x'<hex digits>'\<close> given with its full length,
  on a database that has a B-tree, the attach routine decodes the digits between the
  markers in pairs, and it succeeds exactly when the digit count divided by two, rounded
  down, equals the key length of the cipher: for \<open>2 * key_length\<close> digits and also for
  \<open>2 * key_length + 1\<close> digits, whose last digit is dropped. The key is then exactly
  \<open>key_length\<close> bytes long. For every other count the call stops on the assertion of line
  195 (the code has no error value for a malformed key). The claim as stated lets only
  \<open>2 * key_length\<close> digits succeed.
\<close>

theorem attach_blob_key:
  assumes "0 \<le> n" and "n < int (length (aDb db))" and "dbBt (aDb db ! nat n) = Some bt"
  shows "sqlite3CodecAttach s db n (Some (blob_prefix @ hex @ [0x27])) (int (length hex) + 3) rnd =
           (if int (length hex div 2) = cipher_key_length s
            then Inr (db\<lparr>aDb := (aDb db)[nat n := (aDb db ! nat n)\<lparr>pCodecArg := Some
                   \<lparr>key_sz = cipher_key_length s, pBt = bt,
                    key = sqlite3HexToBlob (hex @ [0x27]) (int (length hex)),
                    rand = take 16 rnd,
                    buffer = replicate (nat (pageSize bt)) 0\<rparr>\<rparr>]\<rparr>)
            else Inl AssertionFailed) \<and>
         length (sqlite3HexToBlob (hex @ [0x27]) (int (length hex))) = length hex div 2"
proof -
  have d: "c_div (int (length hex) + 3 - 3) 2 = int (length hex div 2)"
    using c_div_nonneg [of "int (length hex)"] by (simp add: zdiv_int)
  have dr: "length blob_prefix = 2"
    by (simp add: blob_prefix_def)
  have nz: "int (length hex) + 3 \<noteq> 0" by simp
  show ?thesis
    using assms d nz
    by (simp add: sqlite3CodecAttach_def Let_def blob_literal_detected dr hex_blob_length
          del: of_nat_add)
qed

theorem attach_blob_key_witness:
  "sqlite3CodecAttach demo_suite demo_fresh_db 0 (Some (demo_blob_key 32)) 35 demo_salt =
     Inr (demo_fresh_db\<lparr>aDb := (aDb demo_fresh_db)[0 := (aDb demo_fresh_db ! 0)\<lparr>pCodecArg := Some
            \<lparr>key_sz = 16, pBt = \<lparr>pageSize = 512\<rparr>, key = replicate 16 0xAA,
             rand = demo_salt, buffer = replicate 512 0\<rparr>\<rparr>]\<rparr>) \<and>
   sqlite3CodecAttach demo_suite demo_fresh_db 0 (Some (demo_blob_key 30)) 33 demo_salt =
     Inl AssertionFailed"
proof -
  have k: "sqlite3HexToBlob (replicate 32 0x61 @ [0x27]) 32 = replicate 16 0xAA"
    by code_simp
  have b: "dbBt (aDb demo_fresh_db ! nat 0) = Some \<lparr>pageSize = 512\<rparr>"
    "0 < int (length (aDb demo_fresh_db))"
    by (simp_all add: demo_fresh_db_def)
  have s: "take 16 demo_salt = demo_salt" "cipher_key_length demo_suite = 16"
    by (simp_all add: demo_salt_def demo_suite_def)
  show ?thesis
    using attach_blob_key [OF _ b(2) b(1), of demo_suite "replicate 32 0x61" demo_salt]
          attach_blob_key [OF _ b(2) b(1), of demo_suite "replicate 30 0x61" demo_salt]
    by (simp add: demo_blob_key_def k s)
qed

theorem attach_blob_key_counterexample:
  "map_option (\<lambda>c. length (key c))
     (attached_ctx (sqlite3CodecAttach demo_suite demo_fresh_db 0
                      (Some (demo_blob_key 33)) 36 demo_salt) 0) = Some 16 \<and>
   cipher_key_length demo_suite = 16 \<and>
   length (demo_blob_key 33) = 36 \<and>
   (33::nat) \<noteq> 2 * 16"
  by code_simp

text \<open>
  Claim C7, as amended. The attach routine never looks at the codec slot of the pager: an
  attach on a handle that already has a context behaves as the same attach on that handle
  with nothing attached. It fails only where a first attach fails (the assertions on the
  key length); there is no check for an attached context and no such error. When it
  returns, the slot holds the context built by this call, with the key of the new
  credential, the new random salt and a new scratch buffer, in place of the old context.
\<close>

theorem attach_replaces_context:
  assumes "0 \<le> n" and "n < int (length (aDb db))"
    and "dbBt (aDb db ! nat n) = Some bt"
    and "pCodecArg (aDb db ! nat n) = Some old"
    and "nKey \<noteq> 0"
  shows "sqlite3CodecAttach s db n (Some z) nKey rnd =
           sqlite3CodecAttach s
             (db\<lparr>aDb := (aDb db)[nat n := (aDb db ! nat n)\<lparr>pCodecArg := None\<rparr>]\<rparr>)
             n (Some z) nKey rnd \<and>
         (\<forall>d. sqlite3CodecAttach s db n (Some z) nKey rnd = Inr d \<longrightarrow>
            (\<exists>k. pCodecArg (aDb d ! nat n) =
                   Some \<lparr>key_sz = cipher_key_length s, pBt = bt, key = k,
                         rand = take 16 rnd,
                         buffer = replicate (nat (pageSize bt)) 0\<rparr>)) \<and>
         (sqlite3StrNICmp z blob_prefix 2 \<noteq> 0 \<and>
          int (length (codec_passphrase_hash s z nKey)) = cipher_key_length s \<longrightarrow>
            (\<exists>d. sqlite3CodecAttach s db n (Some z) nKey rnd = Inr d))"
proof -
  let ?db0 = "db\<lparr>aDb := (aDb db)[nat n := (aDb db ! nat n)\<lparr>pCodecArg := None\<rparr>]\<rparr>"
  have i: "nat n < length (aDb db)" using assms(1,2) by simp
  have l0: "n < int (length (aDb ?db0))" using assms(2) by simp
  have b0: "dbBt (aDb ?db0 ! nat n) = Some bt" using i assms(3) by simp
  note here = attach_credential [OF assms(1,2,3,5), of s z rnd]
  note clean = attach_credential [OF assms(1) l0 b0 assms(5), of s z rnd]
  have one: "sqlite3CodecAttach s db n (Some z) nKey rnd =
               sqlite3CodecAttach s ?db0 n (Some z) nKey rnd"
    unfolding here clean using i by (simp split: sum.splits)
  have two: "\<exists>k. pCodecArg (aDb d ! nat n) =
                   Some \<lparr>key_sz = cipher_key_length s, pBt = bt, key = k,
                         rand = take 16 rnd,
                         buffer = replicate (nat (pageSize bt)) 0\<rparr>"
    if "sqlite3CodecAttach s db n (Some z) nKey rnd = Inr d" for d
    using that i unfolding here by (auto split: sum.splits if_splits)
  have three: "\<exists>d. sqlite3CodecAttach s db n (Some z) nKey rnd = Inr d"
    if "sqlite3StrNICmp z blob_prefix 2 \<noteq> 0"
      and "int (length (codec_passphrase_hash s z nKey)) = cipher_key_length s"
    unfolding here using that by simp
  show ?thesis using one two three by blast
qed

theorem attach_replaces_context_witness:
  "sqlite3CodecAttach demo_suite demo_db 0 (Some demo_passphrase) 13 demo_salt =
     sqlite3CodecAttach demo_suite demo_fresh_db 0 (Some demo_passphrase) 13 demo_salt \<and>
   sqlite3CodecAttach demo_suite demo_db 0 (Some demo_passphrase) 13 demo_salt \<noteq> Inl AssertionFailed"
proof -
  have h: "0 < int (length (aDb demo_db))"
    "dbBt (aDb demo_db ! nat 0) = Some \<lparr>pageSize = 512\<rparr>"
    "pCodecArg (aDb demo_db ! nat 0) = Some demo_ctx"
    by (simp_all add: demo_db_def)
  have f: "demo_db\<lparr>aDb := (aDb demo_db)[nat 0 := (aDb demo_db ! nat 0)\<lparr>pCodecArg := None\<rparr>]\<rparr>
             = demo_fresh_db"
    by (simp add: demo_db_def demo_fresh_db_def)
  have p: "sqlite3StrNICmp demo_passphrase blob_prefix 2 \<noteq> 0"
    "int (length (codec_passphrase_hash demo_suite demo_passphrase 13))
       = cipher_key_length demo_suite"
    by code_simp+
  show ?thesis
    using attach_replaces_context [OF _ h(1) h(2) h(3), of 13 demo_suite demo_passphrase demo_salt]
          f p
    by auto
qed

theorem attach_twice_counterexample:
  "attached_ctx (sqlite3CodecAttach demo_suite demo_db 0 (Some demo_passphrase) 13 demo_salt) 0
     = Some \<lparr>key_sz = 16, pBt = \<lparr>pageSize = 512\<rparr>,
             key = [0x33, 0x34, 0x35, 0x36, 0x37, 0x38, 0x39, 0x3A,
                    0x3B, 0x3C, 0x3D, 0x3E, 0x3F, 0x40, 0x41, 0x42],
             rand = demo_salt, buffer = replicate 512 0\<rparr> \<and>
   pCodecArg (aDb demo_db ! 0) = Some demo_ctx \<and>
   key demo_ctx = replicate 16 0x11 \<and>
   replicate 16 0x11 \<noteq> [0x33, 0x34, 0x35, 0x36, 0x37, 0x38, 0x39, 0x3A,
                          0x3B, 0x3C, 0x3D, 0x3E, 0x3F, 0x40, 0x41, 0x42 :: byte]"
  by code_simp

text \<open>
  Claim C9, as amended. The rekey entry point is not silent: it prints one line to the
  standard output (line 225). It then does what the key-set entry point does, with the
  same result and no failure report of its own. For a handle whose \<^verbatim>\<open>nDb\<close> databases
  are all in \<^verbatim>\<open>aDb\<close>, the key-set loop runs the attach routine once on every database:
  when it returns, the codec slot of each database holds what an attach on that database
  alone gives (the key derived anew from the credential, in a new context), and the
  B-tree and the file of each database are as before: no page is read, decrypted,
  encrypted or written. It returns whenever each of these attaches returns.
\<close>

theorem rekey_attaches_only:
  assumes "nDb d = int (length (aDb d))"
  shows "sqlite3_rekey s out (Some d) pKey nKey rnds
           = (out @ [Rekey_not_implemented], sqlite3_key s (Some d) pKey nKey rnds) \<and>
         sqlite3_rekey s out None pKey nKey rnds = (out @ [Rekey_not_implemented], Inr None) \<and>
         (\<forall>d'. sqlite3_key s (Some d) pKey nKey rnds = Inr (Some d') \<longrightarrow>
            length (aDb d') = length (aDb d) \<and> nDb d' = nDb d \<and>
            (\<forall>j < length (aDb d).
               dbFile (aDb d' ! j) = dbFile (aDb d ! j) \<and>
               dbBt (aDb d' ! j) = dbBt (aDb d ! j) \<and>
               pCodecArg (aDb d' ! j) =
                 attached_ctx (sqlite3CodecAttach s d (int j) pKey nKey (rnds (int j))) j)) \<and>
         ((\<forall>j < length (aDb d).
             \<exists>dj. sqlite3CodecAttach s d (int j) pKey nKey (rnds (int j)) = Inr dj) \<longrightarrow>
          (\<exists>d'. sqlite3_key s (Some d) pKey nKey rnds = Inr (Some d')))"
proof -
  have hi: "nDb d \<le> int (length (aDb d))" using assms by simp
  have what: "length (aDb d') = length (aDb d) \<and> nDb d' = nDb d \<and>
            (\<forall>j < length (aDb d).
               dbFile (aDb d' ! j) = dbFile (aDb d ! j) \<and>
               dbBt (aDb d' ! j) = dbBt (aDb d ! j) \<and>
               pCodecArg (aDb d' ! j) =
                 attached_ctx (sqlite3CodecAttach s d (int j) pKey nKey (rnds (int j))) j)"
    if "sqlite3_key s (Some d) pKey nKey rnds = Inr (Some d')" for d'
  proof -
    from that have "key_loop s d pKey nKey rnds (nDb d) 0 = Inr d'"
      by (auto simp: sqlite3_key_def split: sum.splits)
    from key_loop_attaches [OF this _ hi] show ?thesis using assms by simp
  qed
  have returns: "\<exists>d'. sqlite3_key s (Some d) pKey nKey rnds = Inr (Some d')"
    if all: "\<forall>j < length (aDb d).
               \<exists>dj. sqlite3CodecAttach s d (int j) pKey nKey (rnds (int j)) = Inr dj"
  proof -
    have "\<exists>dj. sqlite3CodecAttach s d j pKey nKey (rnds j) = Inr dj"
      if j: "0 \<le> j \<and> j < nDb d" for j
    proof -
      have "nat j < length (aDb d)" using j assms by linarith
      then show ?thesis using all [rule_format, of "nat j"] j by simp
    qed
    then obtain d' where "key_loop s d pKey nKey rnds (nDb d) 0 = Inr d'"
      using key_loop_returns [OF _ hi, of 0 s pKey nKey rnds] by auto
    then show ?thesis by (simp add: sqlite3_key_def)
  qed
  have none: "sqlite3_rekey s out None pKey nKey rnds = (out @ [Rekey_not_implemented], Inr None)"
    by (simp add: sqlite3_rekey_def sqlite3_key_def)
  have some: "sqlite3_rekey s out (Some d) pKey nKey rnds
           = (out @ [Rekey_not_implemented], sqlite3_key s (Some d) pKey nKey rnds)"
    by (simp add: sqlite3_rekey_def)
  show ?thesis using some none what returns by blast
qed

theorem rekey_attaches_only_witness:
  "sqlite3_rekey demo_suite [] (Some demo_two_db) (Some demo_passphrase) 13 demo_rnds
     = ([Rekey_not_implemented],
        Inr (Some (demo_two_db\<lparr>aDb :=
          [(aDb demo_two_db ! 0)\<lparr>pCodecArg := Some
               \<lparr>key_sz = 16, pBt = \<lparr>pageSize = 512\<rparr>,
                key = [0x33, 0x34, 0x35, 0x36, 0x37, 0x38, 0x39, 0x3A,
                       0x3B, 0x3C, 0x3D, 0x3E, 0x3F, 0x40, 0x41, 0x42],
                rand = demo_salt, buffer = replicate 512 0\<rparr>\<rparr>,
           (aDb demo_two_db ! 1)\<lparr>pCodecArg := Some
               \<lparr>key_sz = 16, pBt = \<lparr>pageSize = 512\<rparr>,
                key = [0x33, 0x34, 0x35, 0x36, 0x37, 0x38, 0x39, 0x3A,
                       0x3B, 0x3C, 0x3D, 0x3E, 0x3F, 0x40, 0x41, 0x42],
                rand = replicate 16 0xBB, buffer = replicate 512 0\<rparr>\<rparr>]\<rparr>))) \<and>
   map_option (\<lambda>d'. map dbFile (aDb d'))
     (projr (snd (sqlite3_rekey demo_suite [] (Some demo_two_db) (Some demo_passphrase) 13 demo_rnds)))
     = Some [[(1, demo_disk_page)], [(1, demo_plain_page)]]"
proof -
  let ?D = "demo_two_db\<lparr>aDb :=
          [(aDb demo_two_db ! 0)\<lparr>pCodecArg := Some
               \<lparr>key_sz = 16, pBt = \<lparr>pageSize = 512\<rparr>,
                key = [0x33, 0x34, 0x35, 0x36, 0x37, 0x38, 0x39, 0x3A,
                       0x3B, 0x3C, 0x3D, 0x3E, 0x3F, 0x40, 0x41, 0x42],
                rand = demo_salt, buffer = replicate 512 0\<rparr>\<rparr>,
           (aDb demo_two_db ! 1)\<lparr>pCodecArg := Some
               \<lparr>key_sz = 16, pBt = \<lparr>pageSize = 512\<rparr>,
                key = [0x33, 0x34, 0x35, 0x36, 0x37, 0x38, 0x39, 0x3A,
                       0x3B, 0x3C, 0x3D, 0x3E, 0x3F, 0x40, 0x41, 0x42],
                rand = replicate 16 0xBB, buffer = replicate 512 0\<rparr>\<rparr>]\<rparr>"
  have n: "nDb demo_two_db = int (length (aDb demo_two_db))" by (simp add: demo_two_db_def)
  have k: "sqlite3_key demo_suite (Some demo_two_db) (Some demo_passphrase) 13 demo_rnds
             = Inr (Some ?D)"
    by code_simp
  have f: "dbFile (aDb demo_two_db ! 0) = [(1, demo_disk_page)]"
    "dbFile (aDb demo_two_db ! Suc 0) = [(1, demo_plain_page)]"
    by (simp_all add: demo_two_db_def)
  show ?thesis
    using rekey_attaches_only [OF n, of demo_suite "[]" "Some demo_passphrase" 13 demo_rnds]
    by (simp add: k f)
qed

theorem rekey_silent_counterexample:
  "fst (sqlite3_rekey demo_suite [] (Some demo_db) (Some demo_passphrase) 13 (\<lambda>i. demo_salt))
     = [Rekey_not_implemented] \<and>
   [Rekey_not_implemented] \<noteq> []"
  by (simp add: sqlite3_rekey_def)

end
